theory Spec2Isabelle
  imports
    Main
    "HOL-Library.Char_ord"
    "HOL-Library.List_Lexorder"
    "HOL-Library.Product_Lexorder"
    "HOL-Library.Multiset"
    "HOL-Library.Word"
begin

section \<open>Strings, rows and the messages table\<close>

text \<open>
  A Python \<open>str\<close> is a sequence of code points. The model writes it as a \<open>string\<close>
  and reads each \<open>char\<close> as one code point in the range U+0000 .. U+00FF, so that
  \<open>length\<close> is Python's \<open>len\<close>. SQLite compares TEXT values under its default BINARY
  collation, byte by byte on the UTF-8 encoding, a proper prefix being smaller; on code
  points that is the lexicographic order of lists over the order of the code points,
  which is the order of \<open>HOL-Library.List_Lexorder\<close> over \<open>HOL-Library.Char_ord\<close>.
\<close>

text \<open>
  The table \<open>messages\<close> of \<open>models.py\<close>: one record per row, in the order of insertion.
  The columns declared \<open>NOT NULL\<close> are strings, the nullable column \<open>text\<close> is an option.
\<close>

record message =
  message_id :: string
  from_msisdn :: string
  to_msisdn :: string
  ts :: string
  msg_text :: "string option"
  created_at :: string

type_synonym table = "message list"

text \<open>
  Bytes are 8-bit words. \<open>str.encode("utf-8")\<close> on the code points below U+0100: one byte
  below U+0080, two bytes from there on.
\<close>

type_synonym bytes = "8 word list"

definition encode_utf8 :: "string \<Rightarrow> bytes" where
  "encode_utf8 s =
     concat (map (\<lambda>c. let n = (of_char c :: nat)
                        in if n < 128 then [of_nat n]
                           else [of_nat (192 + n div 64), of_nat (128 + n mod 64)]) s)"

datatype py_error = OperationalError | TypeError | OverflowError | ValidationError

text \<open>
  What the database does during one call of the storage layer. \<open>ConnectFault\<close>: opening the
  connection fails (\<open>get_connection\<close> raises); \<open>StatementFault\<close>: the connection opens and the
  statement or the commit raises something that is not an \<open>IntegrityError\<close> (a locked
  database, an I/O error, a missing table).
\<close>

datatype db_fault = NoFault | ConnectFault | StatementFault

section \<open>MessageStorage.insert_message\<close>

text \<open>
  \<open>insert_message\<close> of \<open>storage.py\<close>. \<open>get_connection()\<close> is called before the \<open>try\<close>, so its
  exception leaves the function. Inside the \<open>try\<close>, the primary key on \<open>message_id\<close> makes the
  \<open>INSERT\<close> raise \<open>IntegrityError\<close> when a row with that key exists: \<open>(True, True)\<close>; any other
  exception gives \<open>(False, False)\<close>; otherwise the row is committed: \<open>(True, False)\<close>.
  \<open>now\<close> is the formatted reading of the server clock that becomes \<open>created_at\<close>.
  The function returns the outcome and the table after the call.
\<close>

definition insert_message ::
  "db_fault \<Rightarrow> string \<Rightarrow> table \<Rightarrow> string \<Rightarrow> string \<Rightarrow> string \<Rightarrow> string \<Rightarrow> string option
     \<Rightarrow> (py_error + bool \<times> bool) \<times> table" where
  "insert_message fault now tbl mid frm to tstamp txt =
     (case fault of
        ConnectFault \<Rightarrow> (Inl OperationalError, tbl)
      | StatementFault \<Rightarrow> (Inr (False, False), tbl)
      | NoFault \<Rightarrow>
          if mid \<in> set (map message_id tbl) then (Inr (True, True), tbl)
          else (Inr (True, False),
                tbl @ [\<lparr>message_id = mid, from_msisdn = frm, to_msisdn = to, ts = tstamp,
                         msg_text = txt, created_at = now\<rparr>]))"

text \<open>One call of \<open>insert_message\<close> with its arguments, and a sequence of such calls.\<close>

record insert_call =
  c_fault :: db_fault
  c_now :: string
  c_message_id :: string
  c_from :: string
  c_to :: string
  c_ts :: string
  c_text :: "string option"

definition run_call :: "table \<Rightarrow> insert_call \<Rightarrow> table" where
  "run_call tbl c =
     snd (insert_message (c_fault c) (c_now c) tbl (c_message_id c) (c_from c) (c_to c)
            (c_ts c) (c_text c))"

definition run_calls :: "table \<Rightarrow> insert_call list \<Rightarrow> table" where
  "run_calls tbl cs = foldl run_call tbl cs"

definition rows_with_id :: "string \<Rightarrow> table \<Rightarrow> message list" where
  "rows_with_id mid tbl = filter (\<lambda>m. message_id m = mid) tbl"

section \<open>MessageStorage.get_messages\<close>

text \<open>
  Case folding. Python's \<open>str.lower\<close> folds every cased letter; on the code points below
  U+0100 these are \<open>A\<close> .. \<open>Z\<close> and U+00C0 .. U+00DE without the multiplication sign U+00D7.
  SQLite's built-in \<open>LOWER\<close> and the case folding inside \<open>LIKE\<close> touch the ASCII letters only.
\<close>

definition py_lower_char :: "char \<Rightarrow> char" where
  "py_lower_char c =
     (let n = (of_char c :: nat)
      in if (65 \<le> n \<and> n \<le> 90) \<or> (192 \<le> n \<and> n \<le> 222 \<and> n \<noteq> 215)
         then char_of (n + 32) else c)"

definition py_lower :: "string \<Rightarrow> string" where
  "py_lower s = map py_lower_char s"

definition sqlite_lower_char :: "char \<Rightarrow> char" where
  "sqlite_lower_char c =
     (let n = (of_char c :: nat) in if 65 \<le> n \<and> n \<le> 90 then char_of (n + 32) else c)"

definition sqlite_lower :: "string \<Rightarrow> string" where
  "sqlite_lower s = map sqlite_lower_char s"

text \<open>
  SQLite's \<open>LIKE\<close> without an \<open>ESCAPE\<close> clause, \<open>like pattern subject\<close>: in the pattern \<open>%\<close>
  stands for any run of characters, also the empty one, \<open>_\<close> for exactly one character, and
  any other character for itself up to ASCII case.
\<close>

fun like :: "string \<Rightarrow> string \<Rightarrow> bool" where
  "like [] s = (s = [])"
| "like (p # ps) [] = (p = CHR ''%'' \<and> like ps [])"
| "like (p # ps) (c # s) =
     (if p = CHR ''%'' then like ps (c # s) \<or> like (p # ps) s
      else (p = CHR ''_'' \<or> sqlite_lower_char p = sqlite_lower_char c) \<and> like ps s)"

text \<open>
  The function behind \<open>LIKE\<close> reads its pattern and its text as C strings, which end at
  the first U+0000.
\<close>

definition c_str :: "string \<Rightarrow> string" where
  "c_str s = takeWhile (\<lambda>c. c \<noteq> CHR 0x00) s"

text \<open>
  The conditions of the \<open>WHERE\<close> clause, as the source collects them in \<open>conditions\<close> with
  their parameters in \<open>params\<close>. The function behind \<open>LIKE\<close> first measures the pattern it is
  given: beyond 50000 bytes (SQLite's default limit) it fails with
  \<open>LIKE or GLOB pattern too complex\<close>, which the module \<open>sqlite3\<close> raises as
  \<open>OperationalError\<close>, whatever the text is, \<open>NULL\<close> included. A comparison with \<open>NULL\<close> is
  not true, so a row whose \<open>text\<close> is \<open>NULL\<close> fails the \<open>LIKE\<close> condition.
\<close>

datatype condition = FromEq string | TsGe string | TextLike string

fun holds :: "condition \<Rightarrow> message \<Rightarrow> py_error + bool" where
  "holds (FromEq f) m = Inr (from_msisdn m = f)"
| "holds (TsGe s) m = Inr (s \<le> ts m)"
| "holds (TextLike p) m =
     (if 50000 < length (encode_utf8 p) then Inl OperationalError
      else Inr (case msg_text m of
                  None \<Rightarrow> False
                | Some t \<Rightarrow> like (c_str p) (c_str (sqlite_lower t))))"

text \<open>Python's truth value of an \<open>Optional[str]\<close>: \<open>None\<close> and the empty string are false.\<close>

definition truthy :: "string option \<Rightarrow> bool" where
  "truthy v = (case v of None \<Rightarrow> False | Some s \<Rightarrow> s \<noteq> [])"

definition str_of :: "string option \<Rightarrow> string" where
  "str_of v = (case v of None \<Rightarrow> [] | Some s \<Rightarrow> s)"

definition conditions :: "string option \<Rightarrow> string option \<Rightarrow> string option \<Rightarrow> condition list" where
  "conditions from_filter since q =
     (if truthy from_filter then [FromEq (str_of from_filter)] else []) @
     (if truthy since then [TsGe (str_of since)] else []) @
     (if truthy q then [TextLike (''%'' @ py_lower (str_of q) @ ''%'')] else [])"

text \<open>
  The \<open>WHERE\<close> clause on one row: the conditions are joined by \<open>AND\<close> and tested from left
  to right, and a row that fails one of them is not tested on the next.
\<close>

fun where_row :: "condition list \<Rightarrow> message \<Rightarrow> py_error + bool" where
  "where_row [] m = Inr True"
| "where_row (c # cs) m =
     (case holds c m of
        Inl e \<Rightarrow> Inl e
      | Inr b \<Rightarrow> if b then where_row cs m else Inr False)"

text \<open>The scan of the table: the rows that pass, unless the test of some row fails.\<close>

fun where_rows :: "condition list \<Rightarrow> table \<Rightarrow> py_error + message list" where
  "where_rows conds [] = Inr []"
| "where_rows conds (m # tbl) =
     (case where_row conds m of
        Inl e \<Rightarrow> Inl e
      | Inr b \<Rightarrow>
          (case where_rows conds tbl of
             Inl e \<Rightarrow> Inl e
           | Inr rows \<Rightarrow> Inr (if b then m # rows else rows)))"

text \<open>
  \<open>ORDER BY ts ASC, message_id ASC\<close>: a sort on the pair of the two columns, ordered
  lexicographically.
\<close>

definition order_by_ts_message_id :: "message list \<Rightarrow> message list" where
  "order_by_ts_message_id rows = sort_key (\<lambda>m. (ts m, message_id m)) rows"

text \<open>
  \<open>LIMIT ? OFFSET ?\<close> in SQLite: a negative offset skips nothing, a negative limit puts no
  bound on the number of rows.
\<close>

definition limit_offset :: "int \<Rightarrow> int \<Rightarrow> 'a list \<Rightarrow> 'a list" where
  "limit_offset lim off rows =
     (let rest = drop (nat off) rows in if lim < 0 then rest else take (nat lim) rest)"

text \<open>
  The module \<open>sqlite3\<close> binds a Python \<open>int\<close> as a signed 64-bit INTEGER and raises
  \<open>OverflowError\<close> for a value outside that range.
\<close>

definition int64 :: "int \<Rightarrow> bool" where
  "int64 n = (- (2 ^ 63) \<le> n \<and> n < 2 ^ 63)"

text \<open>One element of \<open>data\<close>, and the dictionary that \<open>get_messages\<close> returns.\<close>

record item =
  i_message_id :: string
  i_from :: string
  i_to :: string
  i_ts :: string
  i_text :: "string option"

record page =
  pg_data :: "item list"
  pg_total :: int
  pg_limit :: int
  pg_offset :: int

definition to_item :: "message \<Rightarrow> item" where
  "to_item row =
     \<lparr>i_message_id = message_id row, i_from = from_msisdn row, i_to = to_msisdn row,
      i_ts = ts row, i_text = msg_text row\<rparr>"

text \<open>
  \<open>get_messages\<close> of \<open>storage.py\<close>, on a database that can be read: the count query, which
  binds the filter parameters only, then the data query, which binds \<open>limit\<close> and \<open>offset\<close>
  as well. Both run the same \<open>WHERE\<close> clause, so the first one raises what the clause
  raises. No exception is caught.
\<close>

definition get_messages ::
  "table \<Rightarrow> int \<Rightarrow> int \<Rightarrow> string option \<Rightarrow> string option \<Rightarrow> string option
     \<Rightarrow> py_error + page" where
  "get_messages tbl lim off from_filter since q =
     (case where_rows (conditions from_filter since q) tbl of
        Inl e \<Rightarrow> Inl e
      | Inr rows \<Rightarrow>
          if \<not> (int64 lim \<and> int64 off) then Inl OverflowError
          else Inr \<lparr>pg_data = map to_item (limit_offset lim off (order_by_ts_message_id rows)),
                     pg_total = int (length rows), pg_limit = lim, pg_offset = off\<rparr>)"

text \<open>The order on items that Claim C3 speaks of.\<close>

definition item_le :: "item \<Rightarrow> item \<Rightarrow> bool" where
  "item_le a b = (i_ts a < i_ts b \<or> (i_ts a = i_ts b \<and> i_message_id a \<le> i_message_id b))"

text \<open>
  The spec's reading of the text filter, as the test suite checks it
  (\<open>"hello" in msg["text"].lower()\<close>): the folded query occurs in the folded text as a
  contiguous substring.
\<close>

definition substring_ci :: "string \<Rightarrow> string \<Rightarrow> bool" where
  "substring_ci q t =
     list_ex (\<lambda>i. take (length q) (drop i (py_lower t)) = py_lower q) [0 ..< Suc (length t)]"

section \<open>MessageStorage.get_stats\<close>

text \<open>
  The dictionary that \<open>get_stats\<close> returns; an element of \<open>messages_per_sender\<close> is the pair
  of its \<open>from\<close> and its \<open>count\<close>.
\<close>

record stats =
  total_messages :: int
  senders_count :: int
  messages_per_sender :: "(string \<times> nat) list"
  first_message_ts :: "string option"
  last_message_ts :: "string option"

text \<open>\<open>COUNT(*)\<close> of the rows of one sender.\<close>

definition count_from :: "table \<Rightarrow> string \<Rightarrow> nat" where
  "count_from tbl f = length (filter (\<lambda>m. from_msisdn m = f) tbl)"

text \<open>
  \<open>SELECT from_msisdn, COUNT(*) ... GROUP BY from_msisdn\<close>: one pair for each distinct
  sender. SQL leaves the order of the groups open; the model lists them by ascending
  sender, as grouping over the index on \<open>from_msisdn\<close> produces them.
\<close>

definition group_by_from :: "table \<Rightarrow> (string \<times> nat) list" where
  "group_by_from tbl = map (\<lambda>f. (f, count_from tbl f)) (sort (remdups (map from_msisdn tbl)))"

text \<open>
  \<open>ORDER BY count DESC LIMIT 10\<close>: a sort on the count, largest first, of which the first
  ten are kept. SQL leaves the order among equal counts open; the model keeps the order of
  the groups there.
\<close>

definition top_senders :: "(string \<times> nat) list \<Rightarrow> (string \<times> nat) list" where
  "top_senders groups = take 10 (sort_key (\<lambda>p. - int (snd p)) groups)"

text \<open>\<open>MIN(ts)\<close> and \<open>MAX(ts)\<close>: \<open>NULL\<close> on an empty table.\<close>

definition sql_min :: "string list \<Rightarrow> string option" where
  "sql_min xs = (case xs of [] \<Rightarrow> None | x # rest \<Rightarrow> Some (fold min rest x))"

definition sql_max :: "string list \<Rightarrow> string option" where
  "sql_max xs = (case xs of [] \<Rightarrow> None | x # rest \<Rightarrow> Some (fold max rest x))"

text \<open>\<open>get_stats\<close> of \<open>storage.py\<close>, on a database that can be read.\<close>

definition get_stats :: "table \<Rightarrow> stats" where
  "get_stats tbl =
     \<lparr>total_messages = int (length tbl),
      senders_count = int (length (remdups (map from_msisdn tbl))),
      messages_per_sender = top_senders (group_by_from tbl),
      first_message_ts = sql_min (map ts tbl),
      last_message_ts = sql_max (map ts tbl)\<rparr>"

section \<open>verify_signature\<close>

text \<open>\<open>hexdigest()\<close>: two lower-case hexadecimal digits for each byte of the digest.\<close>

definition hex_digit :: "nat \<Rightarrow> char" where
  "hex_digit n = ''0123456789abcdef'' ! (n mod 16)"

definition hexdigest :: "bytes \<Rightarrow> string" where
  "hexdigest digest = concat (map (\<lambda>b. [hex_digit (unat b div 16), hex_digit (unat b mod 16)]) digest)"

definition is_ascii :: "string \<Rightarrow> bool" where
  "is_ascii s = list_all (\<lambda>c. (of_char c :: nat) < 128) s"

text \<open>
  \<open>hmac.compare_digest\<close> on two \<open>str\<close> arguments: it raises \<open>TypeError\<close> when one of them has
  a character outside ASCII, and otherwise tells whether they are equal.
\<close>

definition compare_digest :: "string \<Rightarrow> string \<Rightarrow> py_error + bool" where
  "compare_digest a b = (if is_ascii a \<and> is_ascii b then Inr (a = b) else Inl TypeError)"

text \<open>
  \<open>verify_signature\<close> of \<open>main.py\<close>. The digest \<open>hmac.new(key, body, hashlib.sha256).digest()\<close>
  is the standard library's; the model takes it as the parameter \<open>hmac_sha256\<close>, a function
  of the key and the message.
\<close>

definition verify_signature ::
  "(bytes \<Rightarrow> bytes \<Rightarrow> bytes) \<Rightarrow> string \<Rightarrow> bytes \<Rightarrow> string \<Rightarrow> py_error + bool" where
  "verify_signature hmac_sha256 secret body signature =
     (let expected = hexdigest (hmac_sha256 (encode_utf8 secret) body)
      in compare_digest expected signature)"

section \<open>WebhookPayload\<close>

text \<open>
  What \<open>json.loads\<close> returns: \<open>None\<close>, a \<open>bool\<close>, an \<open>int\<close>, a \<open>float\<close> (written here by a
  mantissa and a decimal exponent, which the validation never looks at), a \<open>str\<close>, a \<open>list\<close>
  or a \<open>dict\<close> with string keys. A \<open>dict\<close> is written as the list of its items and read
  with \<open>map_of\<close>.
\<close>

datatype json =
    JNull
  | JBool bool
  | JInt int
  | JFloat int int
  | JStr string
  | JList "json list"
  | JDict "(string \<times> json) list"

text \<open>The validated model instance.\<close>

record payload =
  p_message_id :: string
  p_from :: string
  p_to :: string
  p_ts :: string
  p_text :: "string option"

text \<open>
  The two patterns are matched with \<open>re.match\<close>. \<open>[0-9]\<close> is an ASCII digit, and so is \<open>\d\<close>
  on the code points below U+0100. \<open>$\<close> matches at the end of the string and also just
  before a line feed that ends the string.
\<close>

definition is_digit :: "char \<Rightarrow> bool" where
  "is_digit c = (CHR ''0'' \<le> c \<and> c \<le> CHR ''9'')"

definition strip_final_newline :: "string \<Rightarrow> string" where
  "strip_final_newline s = (if s \<noteq> [] \<and> last s = CHR 0x0A then butlast s else s)"

text \<open>\<open>E164_PATTERN\<close>, \<open>^\+[0-9]+$\<close>.\<close>

definition e164_match :: "string \<Rightarrow> bool" where
  "e164_match s =
     (case strip_final_newline s of
        [] \<Rightarrow> False
      | c # ds \<Rightarrow> c = CHR ''+'' \<and> ds \<noteq> [] \<and> list_all is_digit ds)"

text \<open>
  Matching a prefix against a template in which \<open>d\<close> stands for \<open>\d\<close> and every other
  character for itself; the result is the rest of the string.
\<close>

fun eat :: "string \<Rightarrow> string \<Rightarrow> string option" where
  "eat [] s = Some s"
| "eat (p # ps) [] = None"
| "eat (p # ps) (c # s) =
     (if (if p = CHR ''d'' then is_digit c else c = p) then eat ps s else None)"

text \<open>\<open>ISO8601_UTC_PATTERN\<close>, \<open>^\d{4}-\d{2}-\d{2}T\d{2}:\d{2}:\d{2}(\.\d+)?Z$\<close>.\<close>

definition fraction_then :: "string \<Rightarrow> string \<Rightarrow> bool" where
  "fraction_then suffix rest =
     (rest = suffix \<or>
      (let n = length rest - length suffix
       in length suffix < length rest \<and> drop n rest = suffix \<and> hd rest = CHR ''.'' \<and>
          1 < n \<and> list_all is_digit (take (n - 1) (tl rest))))"

definition iso8601_utc_match :: "string \<Rightarrow> bool" where
  "iso8601_utc_match s =
     (case eat ''dddd-dd-ddTdd:dd:dd'' (strip_final_newline s) of
        None \<Rightarrow> False
      | Some rest \<Rightarrow> fraction_then ''Z'' rest)"

text \<open>\<open>v.replace("Z", "+00:00")\<close>.\<close>

definition replace_Z :: "string \<Rightarrow> string" where
  "replace_Z v = concat (map (\<lambda>c. if c = CHR ''Z'' then ''+00:00'' else [c]) v)"

definition digits_value :: "string \<Rightarrow> nat" where
  "digits_value ds = foldl (\<lambda>a c. 10 * a + (of_char c - 48)) 0 ds"

definition days_in_month :: "nat \<Rightarrow> nat \<Rightarrow> nat" where
  "days_in_month y m =
     (if m = 2 then (if y mod 4 = 0 \<and> (y mod 100 \<noteq> 0 \<or> y mod 400 = 0) then 29 else 28)
      else if m = 4 \<or> m = 6 \<or> m = 9 \<or> m = 11 then 30 else 31)"

text \<open>
  Modelled from the spec: \<open>datetime.fromisoformat\<close> is the standard library's; the spec has
  the value accepted when it is parseable as a real calendar instant with the trailing
  \<open>Z\<close> read as the UTC offset. On the strings that reach it here, which have the shape
  \<open>YYYY-MM-DDTHH:MM:SS\<close>, an optional fraction and \<open>+00:00\<close>, that is: the year is 1 .. 9999,
  the month 1 .. 12, the day one of that month, the hour at most 23, minute and second at
  most 59, and nothing follows the offset. \<open>True\<close> stands for a parsed value, \<open>False\<close> for
  \<open>ValueError\<close>.
\<close>

definition fromisoformat_ok :: "string \<Rightarrow> bool" where
  "fromisoformat_ok s =
     (case eat ''dddd-dd-ddTdd:dd:dd'' s of
        None \<Rightarrow> False
      | Some rest \<Rightarrow>
          fraction_then ''+00:00'' rest \<and>
          (let y = digits_value (take 4 s); m = digits_value (take 2 (drop 5 s));
               d = digits_value (take 2 (drop 8 s))
           in 1 \<le> y \<and> 1 \<le> m \<and> m \<le> 12 \<and> 1 \<le> d \<and> d \<le> days_in_month y m) \<and>
          digits_value (take 2 (drop 11 s)) \<le> 23 \<and>
          digits_value (take 2 (drop 14 s)) \<le> 59 \<and>
          digits_value (take 2 (drop 17 s)) \<le> 59)"

text \<open>\<open>validate_ts_iso8601\<close>: the pattern, then the parse.\<close>

definition validate_ts_iso8601 :: "string \<Rightarrow> bool" where
  "validate_ts_iso8601 v = (iso8601_utc_match v \<and> fromisoformat_ok (replace_Z v))"

text \<open>
  The value that feeds the field \<open>from_\<close>: the field has the alias \<open>from\<close>, and
  \<open>populate_by_name = True\<close> lets the field name stand in when the alias is not a key of
  the input.
\<close>

definition lookup_from :: "(string \<times> json) list \<Rightarrow> json option" where
  "lookup_from d = (case map_of d ''from'' of Some v \<Rightarrow> Some v | None \<Rightarrow> map_of d ''from_'')"

text \<open>
  The fields one by one. \<open>message_id\<close>: a \<open>str\<close> of length at least 1. \<open>from_\<close>: its
  validator runs before the type check and calls \<open>E164_PATTERN.match\<close> on whatever the
  input holds. \<open>to\<close> and \<open>ts\<close>: a \<open>str\<close>, then the validator. \<open>text\<close>: absent or \<open>None\<close>,
  or a \<open>str\<close> of length at most 4096.
\<close>

definition message_id_field :: "json option \<Rightarrow> string option" where
  "message_id_field v = (case v of Some (JStr s) \<Rightarrow> if 1 \<le> length s then Some s else None | _ \<Rightarrow> None)"

definition from_field :: "json option \<Rightarrow> string option" where
  "from_field v = (case v of Some (JStr s) \<Rightarrow> if e164_match s then Some s else None | _ \<Rightarrow> None)"

definition to_field :: "json option \<Rightarrow> string option" where
  "to_field v = (case v of Some (JStr s) \<Rightarrow> if e164_match s then Some s else None | _ \<Rightarrow> None)"

definition ts_field :: "json option \<Rightarrow> string option" where
  "ts_field v = (case v of Some (JStr s) \<Rightarrow> if validate_ts_iso8601 s then Some s else None | _ \<Rightarrow> None)"

definition text_field :: "json option \<Rightarrow> string option option" where
  "text_field v =
     (case v of
        None \<Rightarrow> Some None
      | Some JNull \<Rightarrow> Some None
      | Some (JStr s) \<Rightarrow> if length s \<le> 4096 then Some (Some s) else None
      | Some _ \<Rightarrow> None)"

definition is_str :: "json \<Rightarrow> bool" where
  "is_str v = (case v of JStr s \<Rightarrow> True | _ \<Rightarrow> False)"

text \<open>
  \<open>WebhookPayload(**payload_data)\<close>. Unpacking anything but a \<open>dict\<close> raises \<open>TypeError\<close>;
  so does the pattern match of the \<open>from_\<close> validator on a value that is not a \<open>str\<close>,
  which pydantic lets through as it is. Every other failure is part of the
  \<open>ValidationError\<close> raised at the end. Keys that belong to no field are ignored.
\<close>

definition WebhookPayload :: "json \<Rightarrow> py_error + payload" where
  "WebhookPayload payload_data =
     (case payload_data of
        JDict d \<Rightarrow>
          if (case lookup_from d of Some v \<Rightarrow> \<not> is_str v | None \<Rightarrow> False) then Inl TypeError
          else
            (case (message_id_field (map_of d ''message_id''), from_field (lookup_from d),
                   to_field (map_of d ''to''), ts_field (map_of d ''ts''),
                   text_field (map_of d ''text'')) of
               (Some mid, Some f, Some t, Some s, Some x) \<Rightarrow>
                 Inr \<lparr>p_message_id = mid, p_from = f, p_to = t, p_ts = s, p_text = x\<rparr>
             | _ \<Rightarrow> Inl ValidationError)
      | _ \<Rightarrow> Inl TypeError)"

section \<open>The webhook handler\<close>

text \<open>
  The response: its status code and its body, \<open>{"status": "ok"}\<close> or \<open>{"detail": ...}\<close>.
  The detail of a 422 is the text of the exception, of which the model keeps the kind.
\<close>

datatype body = StatusOk | Detail string | ExceptionText

text \<open>
  What a call of \<open>webhook\<close> leaves behind: the response, \<open>request.state.webhook_result\<close>
  (the outcome recorded for logging and metrics) and the table.
\<close>

record webhook_out =
  w_status :: nat
  w_body :: body
  w_result :: "string option"
  w_table :: table

text \<open>
  \<open>webhook\<close> of \<open>main.py\<close>. \<open>json.loads\<close> is the standard library's and is the parameter
  \<open>json_loads\<close>, \<open>None\<close> standing for its exception. An exception that the handler does
  not catch reaches \<open>generic_exception_handler\<close>, which answers 500. The value \<open>success\<close>
  that \<open>insert_message\<close> returns is not read.
\<close>

definition webhook ::
  "(bytes \<Rightarrow> bytes \<Rightarrow> bytes) \<Rightarrow> (bytes \<Rightarrow> json option) \<Rightarrow> string \<Rightarrow> db_fault \<Rightarrow> string \<Rightarrow> table
     \<Rightarrow> string option \<Rightarrow> bytes \<Rightarrow> webhook_out" where
  "webhook hmac_sha256 json_loads webhook_secret fault now tbl x_signature body =
     (if \<not> truthy x_signature then
        \<lparr>w_status = 401, w_body = Detail ''invalid signature'',
         w_result = Some ''invalid_signature'', w_table = tbl\<rparr>
      else
        case verify_signature hmac_sha256 webhook_secret body (str_of x_signature) of
          Inl e \<Rightarrow>
            \<lparr>w_status = 500, w_body = Detail ''Internal server error'',
             w_result = None, w_table = tbl\<rparr>
        | Inr False \<Rightarrow>
            \<lparr>w_status = 401, w_body = Detail ''invalid signature'',
             w_result = Some ''invalid_signature'', w_table = tbl\<rparr>
        | Inr True \<Rightarrow>
            (case json_loads body of
               None \<Rightarrow>
                 \<lparr>w_status = 422, w_body = ExceptionText,
                  w_result = Some ''validation_error'', w_table = tbl\<rparr>
             | Some payload_data \<Rightarrow>
                 (case WebhookPayload payload_data of
                    Inl e \<Rightarrow>
                      \<lparr>w_status = 422, w_body = ExceptionText,
                       w_result = Some ''validation_error'', w_table = tbl\<rparr>
                  | Inr payload \<Rightarrow>
                      (case insert_message fault now tbl (p_message_id payload) (p_from payload)
                              (p_to payload) (p_ts payload) (p_text payload) of
                         (Inl e, tbl') \<Rightarrow>
                           \<lparr>w_status = 500, w_body = Detail ''Internal server error'',
                            w_result = None, w_table = tbl'\<rparr>
                       | (Inr (success, is_duplicate), tbl') \<Rightarrow>
                           \<lparr>w_status = 200, w_body = StatusOk,
                            w_result = Some (if is_duplicate then ''duplicate'' else ''created''),
                            w_table = tbl'\<rparr>))))"

section \<open>Idempotent insert\<close>

lemma insert_message_keeps_rows_with_id:
  "mid \<in> set (map message_id tbl) \<Longrightarrow>
   rows_with_id mid (snd (insert_message fault now tbl mid' frm to tstamp txt)) = rows_with_id mid tbl"
  by (cases fault) (auto simp: insert_message_def rows_with_id_def)

lemma insert_message_keeps_ids:
  "mid \<in> set (map message_id tbl) \<Longrightarrow>
   mid \<in> set (map message_id (snd (insert_message fault now tbl mid' frm to tstamp txt)))"
  by (cases fault) (auto simp: insert_message_def)

lemma run_calls_keeps:
  "mid \<in> set (map message_id tbl) \<Longrightarrow>
   mid \<in> set (map message_id (run_calls tbl cs)) \<and>
   rows_with_id mid (run_calls tbl cs) = rows_with_id mid tbl"
proof (induction cs arbitrary: tbl)
  case Nil
  then show ?case by (simp add: run_calls_def)
next
  case (Cons c cs)
  let ?t = "run_call tbl c"
  have a: "mid \<in> set (map message_id ?t)"
    unfolding run_call_def using Cons.prems by (rule insert_message_keeps_ids)
  have b: "rows_with_id mid ?t = rows_with_id mid tbl"
    unfolding run_call_def using Cons.prems by (rule insert_message_keeps_rows_with_id)
  have "run_calls tbl (c # cs) = run_calls ?t cs" by (simp add: run_calls_def)
  with Cons.IH [OF a] b show ?case by simp
qed

lemma insert_message_distinct:
  "distinct (map message_id tbl) \<Longrightarrow>
   distinct (map message_id (snd (insert_message fault now tbl mid frm to tstamp txt)))"
  by (cases fault) (auto simp: insert_message_def)

text \<open>
  Claim C1. When no row has the key \<open>mid\<close> and the database works, the first
  \<open>insert_message\<close> with \<open>mid\<close> reports created, \<open>(True, False)\<close>, and the table then holds
  exactly one row with that key, the row of the call. After any further sequence of calls
  (any keys, any faults), a working insert with the same \<open>mid\<close> and any other field values
  reports duplicate, \<open>(True, True)\<close>, returns the table as it was, and the one row with key
  \<open>mid\<close> is still the row first stored.
\<close>

theorem insert_message_idempotent:
  assumes fresh: "mid \<notin> set (map message_id tbl)"
    and first: "insert_message NoFault now tbl mid frm to tstamp txt = (r1, tbl1)"
    and later: "tbl2 = run_calls tbl1 cs"
    and again: "insert_message NoFault now' tbl2 mid frm' to' tstamp' txt' = (r2, tbl3)"
  shows "r1 = Inr (True, False) \<and>
         rows_with_id mid tbl1 =
           [\<lparr>message_id = mid, from_msisdn = frm, to_msisdn = to, ts = tstamp,
              msg_text = txt, created_at = now\<rparr>] \<and>
         length tbl1 = Suc (length tbl) \<and>
         r2 = Inr (True, True) \<and> tbl3 = tbl2 \<and>
         rows_with_id mid tbl3 = rows_with_id mid tbl1"
proof -
  let ?row = "\<lparr>message_id = mid, from_msisdn = frm, to_msisdn = to, ts = tstamp,
               msg_text = txt, created_at = now\<rparr>"
  from fresh first have r1: "r1 = Inr (True, False)" and t1: "tbl1 = tbl @ [?row]"
    by (auto simp: insert_message_def)
  from fresh have "filter (\<lambda>m. message_id m = mid) tbl = []"
    by (auto simp: filter_empty_conv)
  with t1 have one: "rows_with_id mid tbl1 = [?row]"
    by (simp add: rows_with_id_def)
  from t1 have "mid \<in> set (map message_id tbl1)" by simp
  from run_calls_keeps [OF this, of cs] later
  have mem: "mid \<in> set (map message_id tbl2)"
    and same: "rows_with_id mid tbl2 = rows_with_id mid tbl1" by simp_all
  from mem again have r2: "r2 = Inr (True, True)" and t3: "tbl3 = tbl2"
    by (auto simp: insert_message_def)
  from r1 one t1 r2 t3 same show ?thesis by simp
qed

theorem insert_message_idempotent_witness:
  "insert_message NoFault ''t0'' [] ''m1'' ''+1'' ''+2'' ''2025-01-15T10:00:00Z'' (Some ''Hello'')
     = (Inr (True, False),
        [\<lparr>message_id = ''m1'', from_msisdn = ''+1'', to_msisdn = ''+2'',
           ts = ''2025-01-15T10:00:00Z'', msg_text = Some ''Hello'', created_at = ''t0''\<rparr>]) \<and>
   insert_message NoFault ''t2''
     (run_calls
        [\<lparr>message_id = ''m1'', from_msisdn = ''+1'', to_msisdn = ''+2'',
           ts = ''2025-01-15T10:00:00Z'', msg_text = Some ''Hello'', created_at = ''t0''\<rparr>]
        [\<lparr>c_fault = NoFault, c_now = ''t1'', c_message_id = ''m2'', c_from = ''+5'',
           c_to = ''+6'', c_ts = ''2025-01-15T09:00:00Z'', c_text = None\<rparr>])
     ''m1'' ''+3'' ''+4'' ''2025-01-16T10:00:00Z'' None
     = (Inr (True, True),
        [\<lparr>message_id = ''m1'', from_msisdn = ''+1'', to_msisdn = ''+2'',
           ts = ''2025-01-15T10:00:00Z'', msg_text = Some ''Hello'', created_at = ''t0''\<rparr>,
         \<lparr>message_id = ''m2'', from_msisdn = ''+5'', to_msisdn = ''+6'',
           ts = ''2025-01-15T09:00:00Z'', msg_text = None, created_at = ''t1''\<rparr>])"
proof -
  let ?r1 = "\<lparr>message_id = ''m1'', from_msisdn = ''+1'', to_msisdn = ''+2'',
           ts = ''2025-01-15T10:00:00Z'', msg_text = Some ''Hello'', created_at = ''t0''\<rparr>"
  let ?cs = "[\<lparr>c_fault = NoFault, c_now = ''t1'', c_message_id = ''m2'', c_from = ''+5'',
           c_to = ''+6'', c_ts = ''2025-01-15T09:00:00Z'', c_text = None\<rparr>]"
  have fresh: "''m1'' \<notin> set (map message_id ([] :: table))" by simp
  have first: "insert_message NoFault ''t0'' [] ''m1'' ''+1'' ''+2'' ''2025-01-15T10:00:00Z'' (Some ''Hello'')
     = (Inr (True, False), [?r1])"
    by (simp add: insert_message_def)
  have t2: "run_calls [?r1] ?cs = [?r1,
         \<lparr>message_id = ''m2'', from_msisdn = ''+5'', to_msisdn = ''+6'',
           ts = ''2025-01-15T09:00:00Z'', msg_text = None, created_at = ''t1''\<rparr>]"
    by (simp add: run_calls_def run_call_def insert_message_def)
  obtain r2 t3 where again:
    "insert_message NoFault ''t2'' (run_calls [?r1] ?cs) ''m1'' ''+3'' ''+4'' ''2025-01-16T10:00:00Z'' None = (r2, t3)"
    by (cases "insert_message NoFault ''t2'' (run_calls [?r1] ?cs) ''m1'' ''+3'' ''+4'' ''2025-01-16T10:00:00Z'' None")
  from insert_message_idempotent [OF fresh first refl again]
  have "r2 = Inr (True, True)" and "t3 = run_calls [?r1] ?cs" by simp_all
  with again t2 first show ?thesis by simp
qed

section \<open>Ordering of the query result\<close>

lemma item_le_to_item:
  "item_le (to_item a) (to_item b) = ((ts a, message_id a) \<le> (ts b, message_id b))"
  by (auto simp: item_le_def to_item_def)

lemma sorted_wrt_limit_offset:
  "sorted_wrt R rows \<Longrightarrow> sorted_wrt R (limit_offset lim off rows)"
  by (simp add: limit_offset_def Let_def sorted_wrt_drop sorted_wrt_take)

lemma order_by_sorted:
  "sorted_wrt (\<lambda>a b. (ts a, message_id a) \<le> (ts b, message_id b)) (order_by_ts_message_id rows)"
proof -
  have "sorted (map (\<lambda>m. (ts m, message_id m)) (order_by_ts_message_id rows))"
    unfolding order_by_ts_message_id_def by (rule sorted_sort_key)
  then show ?thesis by (simp add: sorted_map)
qed

lemma sorted_page_items:
  "sorted_wrt item_le (map to_item (limit_offset lim off (order_by_ts_message_id rows)))"
proof -
  have "sorted_wrt (\<lambda>a b. (ts a, message_id a) \<le> (ts b, message_id b))
          (limit_offset lim off (order_by_ts_message_id rows))"
    by (rule sorted_wrt_limit_offset) (rule order_by_sorted)
  then show ?thesis by (simp add: sorted_wrt_map item_le_to_item)
qed

text \<open>
  The primary key makes the sort key injective, so the sorted sequence depends on the set
  of rows only, not on the order in which the table holds them.
\<close>

lemma order_by_unique:
  assumes d1: "distinct (map message_id xs)" and d2: "distinct (map message_id ys)"
    and eq: "set xs = set ys"
  shows "order_by_ts_message_id xs = order_by_ts_message_id ys"
proof -
  let ?k = "\<lambda>m. (ts m, message_id m)"
  have inj: "inj_on message_id (set xs)" and dx: "distinct xs"
    using d1 by (simp_all add: distinct_map)
  have dy: "distinct ys" using d2 by (simp add: distinct_map)
  have injk: "inj_on ?k (set xs)"
    by (rule inj_onI) (use inj in \<open>auto dest: inj_onD\<close>)
  have "order_by_ts_message_id xs = order_by_ts_message_id ys"
    unfolding order_by_ts_message_id_def
  proof (rule map_sorted_distinct_set_unique [where f = ?k])
    show "inj_on ?k (set (sort_key ?k xs) \<union> set (sort_key ?k ys))"
      using injk eq by simp
    show "sorted (map ?k (sort_key ?k xs))" "sorted (map ?k (sort_key ?k ys))"
      by (rule sorted_sort_key)+
    show "distinct (map ?k (sort_key ?k xs))"
      using injk dx by (simp add: distinct_map)
    show "distinct (map ?k (sort_key ?k ys))"
      using injk dy eq by (simp add: distinct_map)
    show "set (sort_key ?k xs) = set (sort_key ?k ys)"
      using eq by simp
  qed
  then show ?thesis .
qed

lemma holds_error: "holds c m = Inl e \<Longrightarrow> e = OperationalError"
  by (cases c) (auto split: if_splits)

lemma where_row_error: "where_row conds m = Inl e \<Longrightarrow> e = OperationalError"
  by (induction conds) (auto split: sum.splits if_splits dest: holds_error)

text \<open>
  The scan fails exactly when the test of some row fails, and otherwise keeps, in the
  order of the table, the rows whose test is true.
\<close>

lemma where_rows_eq:
  "where_rows conds tbl =
     (if \<forall>m \<in> set tbl. \<exists>b. where_row conds m = Inr b
      then Inr (filter (\<lambda>m. where_row conds m = Inr True) tbl)
      else Inl OperationalError)"
proof (induction tbl)
  case Nil
  then show ?case by simp
next
  case (Cons m tbl)
  show ?case
  proof (cases "where_row conds m")
    case (Inl e)
    then have "e = OperationalError" by (rule where_row_error)
    with Inl show ?thesis by auto
  next
    case (Inr b)
    with Cons.IH show ?thesis by (cases b) auto
  qed
qed

lemma where_rows_Inr:
  "where_rows conds tbl = Inr rows \<Longrightarrow> rows = filter (\<lambda>m. where_row conds m = Inr True) tbl"
  by (simp add: where_rows_eq split: if_splits)

lemma where_rows_row_order:
  assumes d1: "distinct (map message_id tbl)" and d2: "distinct (map message_id tbl')"
    and eq: "set tbl = set tbl'"
  shows "(case where_rows conds tbl of
            Inl e \<Rightarrow> where_rows conds tbl' = Inl e
          | Inr rows \<Rightarrow>
              (\<exists>rows'. where_rows conds tbl' = Inr rows' \<and> length rows' = length rows \<and>
                       order_by_ts_message_id rows' = order_by_ts_message_id rows))"
proof (cases "\<forall>m \<in> set tbl. \<exists>b. where_row conds m = Inr b")
  case True
  let ?P = "\<lambda>m. where_row conds m = Inr True"
  from True eq have t': "\<forall>m \<in> set tbl'. \<exists>b. where_row conds m = Inr b" by simp
  have r: "where_rows conds tbl = Inr (filter ?P tbl)"
    and r': "where_rows conds tbl' = Inr (filter ?P tbl')"
    using True t' by (simp_all add: where_rows_eq)
  have o: "order_by_ts_message_id (filter ?P tbl') = order_by_ts_message_id (filter ?P tbl)"
    by (rule order_by_unique) (simp_all add: distinct_map_filter d1 d2 eq)
  then have "length (order_by_ts_message_id (filter ?P tbl')) =
             length (order_by_ts_message_id (filter ?P tbl))" by simp
  then have l: "length (filter ?P tbl') = length (filter ?P tbl)"
    by (simp add: order_by_ts_message_id_def)
  from r r' o l show ?thesis by simp
next
  case False
  with eq have f': "\<not> (\<forall>m \<in> set tbl'. \<exists>b. where_row conds m = Inr b)" by simp
  from False f' show ?thesis by (simp add: where_rows_eq)
qed

lemma get_messages_row_order:
  assumes d1: "distinct (map message_id tbl)" and d2: "distinct (map message_id tbl')"
    and eq: "set tbl = set tbl'"
  shows "get_messages tbl lim off ff since q = get_messages tbl' lim off ff since q"
  using where_rows_row_order [OF d1 d2 eq, of "conditions ff since q"]
  by (auto simp: get_messages_def split: sum.splits)

text \<open>
  Claim C3. Whenever \<open>get_messages\<close> returns, for every table and every combination of
  filters, its items are sorted by \<open>ts\<close> ascending with ties broken by \<open>message_id\<close>
  ascending, both compared as strings. The result is a function of the stored rows: two
  tables with the same rows under distinct keys, in whatever order they hold them, give
  the same result for the same parameters.
\<close>

theorem get_messages_ordered:
  assumes "get_messages tbl lim off from_filter since q = Inr r"
  shows "sorted_wrt item_le (pg_data r) \<and>
         (\<forall>tbl'. distinct (map message_id tbl) \<and> distinct (map message_id tbl') \<and>
                 set tbl' = set tbl \<longrightarrow>
                 get_messages tbl' lim off from_filter since q = Inr r)"
proof
  from assms obtain rows where "pg_data r = map to_item (limit_offset lim off
      (order_by_ts_message_id rows))"
    by (auto simp: get_messages_def split: sum.splits if_splits)
  then show "sorted_wrt item_le (pg_data r)" by (simp add: sorted_page_items)
next
  show "\<forall>tbl'. distinct (map message_id tbl) \<and> distinct (map message_id tbl') \<and>
                 set tbl' = set tbl \<longrightarrow>
                 get_messages tbl' lim off from_filter since q = Inr r"
  proof (intro allI impI)
    fix tbl'
    assume h: "distinct (map message_id tbl) \<and> distinct (map message_id tbl') \<and> set tbl' = set tbl"
    then have "get_messages tbl lim off from_filter since q = get_messages tbl' lim off from_filter since q"
      by (intro get_messages_row_order) simp_all
    with assms show "get_messages tbl' lim off from_filter since q = Inr r" by simp
  qed
qed

theorem get_messages_ordered_witness:
  "get_messages
     [\<lparr>message_id = ''m1'', from_msisdn = ''+1'', to_msisdn = ''+9'',
        ts = ''2025-01-15T12:00:00Z'', msg_text = Some ''Hello'', created_at = ''c1''\<rparr>,
      \<lparr>message_id = ''m2'', from_msisdn = ''+1'', to_msisdn = ''+9'',
        ts = ''2025-01-15T10:00:00Z'', msg_text = None, created_at = ''c2''\<rparr>,
      \<lparr>message_id = ''m0'', from_msisdn = ''+3'', to_msisdn = ''+9'',
        ts = ''2025-01-15T12:00:00Z'', msg_text = Some ''a'', created_at = ''c3''\<rparr>]
     50 0 None None None
   = Inr \<lparr>pg_data =
            [\<lparr>i_message_id = ''m2'', i_from = ''+1'', i_to = ''+9'',
               i_ts = ''2025-01-15T10:00:00Z'', i_text = None\<rparr>,
             \<lparr>i_message_id = ''m0'', i_from = ''+3'', i_to = ''+9'',
               i_ts = ''2025-01-15T12:00:00Z'', i_text = Some ''a''\<rparr>,
             \<lparr>i_message_id = ''m1'', i_from = ''+1'', i_to = ''+9'',
               i_ts = ''2025-01-15T12:00:00Z'', i_text = Some ''Hello''\<rparr>],
          pg_total = 3, pg_limit = 50, pg_offset = 0\<rparr> \<and>
   sorted_wrt item_le
     [\<lparr>i_message_id = ''m2'', i_from = ''+1'', i_to = ''+9'',
        i_ts = ''2025-01-15T10:00:00Z'', i_text = None\<rparr>,
      \<lparr>i_message_id = ''m0'', i_from = ''+3'', i_to = ''+9'',
        i_ts = ''2025-01-15T12:00:00Z'', i_text = Some ''a''\<rparr>,
      \<lparr>i_message_id = ''m1'', i_from = ''+1'', i_to = ''+9'',
        i_ts = ''2025-01-15T12:00:00Z'', i_text = Some ''Hello''\<rparr>] \<and>
   get_messages
     [\<lparr>message_id = ''m0'', from_msisdn = ''+3'', to_msisdn = ''+9'',
        ts = ''2025-01-15T12:00:00Z'', msg_text = Some ''a'', created_at = ''c3''\<rparr>,
      \<lparr>message_id = ''m1'', from_msisdn = ''+1'', to_msisdn = ''+9'',
        ts = ''2025-01-15T12:00:00Z'', msg_text = Some ''Hello'', created_at = ''c1''\<rparr>,
      \<lparr>message_id = ''m2'', from_msisdn = ''+1'', to_msisdn = ''+9'',
        ts = ''2025-01-15T10:00:00Z'', msg_text = None, created_at = ''c2''\<rparr>]
     50 0 None None None
   = Inr \<lparr>pg_data =
            [\<lparr>i_message_id = ''m2'', i_from = ''+1'', i_to = ''+9'',
               i_ts = ''2025-01-15T10:00:00Z'', i_text = None\<rparr>,
             \<lparr>i_message_id = ''m0'', i_from = ''+3'', i_to = ''+9'',
               i_ts = ''2025-01-15T12:00:00Z'', i_text = Some ''a''\<rparr>,
             \<lparr>i_message_id = ''m1'', i_from = ''+1'', i_to = ''+9'',
               i_ts = ''2025-01-15T12:00:00Z'', i_text = Some ''Hello''\<rparr>],
          pg_total = 3, pg_limit = 50, pg_offset = 0\<rparr>"
proof -
  let ?tbl' = "[\<lparr>message_id = ''m0'', from_msisdn = ''+3'', to_msisdn = ''+9'',
        ts = ''2025-01-15T12:00:00Z'', msg_text = Some ''a'', created_at = ''c3''\<rparr>,
      \<lparr>message_id = ''m1'', from_msisdn = ''+1'', to_msisdn = ''+9'',
        ts = ''2025-01-15T12:00:00Z'', msg_text = Some ''Hello'', created_at = ''c1''\<rparr>,
      \<lparr>message_id = ''m2'', from_msisdn = ''+1'', to_msisdn = ''+9'',
        ts = ''2025-01-15T10:00:00Z'', msg_text = None, created_at = ''c2''\<rparr>]"
  let ?tbl = "[\<lparr>message_id = ''m1'', from_msisdn = ''+1'', to_msisdn = ''+9'',
        ts = ''2025-01-15T12:00:00Z'', msg_text = Some ''Hello'', created_at = ''c1''\<rparr>,
      \<lparr>message_id = ''m2'', from_msisdn = ''+1'', to_msisdn = ''+9'',
        ts = ''2025-01-15T10:00:00Z'', msg_text = None, created_at = ''c2''\<rparr>,
      \<lparr>message_id = ''m0'', from_msisdn = ''+3'', to_msisdn = ''+9'',
        ts = ''2025-01-15T12:00:00Z'', msg_text = Some ''a'', created_at = ''c3''\<rparr>]"
  let ?page = "\<lparr>pg_data =
            [\<lparr>i_message_id = ''m2'', i_from = ''+1'', i_to = ''+9'',
               i_ts = ''2025-01-15T10:00:00Z'', i_text = None\<rparr>,
             \<lparr>i_message_id = ''m0'', i_from = ''+3'', i_to = ''+9'',
               i_ts = ''2025-01-15T12:00:00Z'', i_text = Some ''a''\<rparr>,
             \<lparr>i_message_id = ''m1'', i_from = ''+1'', i_to = ''+9'',
               i_ts = ''2025-01-15T12:00:00Z'', i_text = Some ''Hello''\<rparr>],
          pg_total = 3, pg_limit = 50, pg_offset = 0\<rparr>"
  have e: "get_messages ?tbl 50 0 None None None = Inr ?page"
    by code_simp
  from get_messages_ordered [OF e] have "sorted_wrt item_le (pg_data ?page)" by (rule conjunct1)
  then have s: "sorted_wrt item_le
     [\<lparr>i_message_id = ''m2'', i_from = ''+1'', i_to = ''+9'',
        i_ts = ''2025-01-15T10:00:00Z'', i_text = None\<rparr>,
      \<lparr>i_message_id = ''m0'', i_from = ''+3'', i_to = ''+9'',
        i_ts = ''2025-01-15T12:00:00Z'', i_text = Some ''a''\<rparr>,
      \<lparr>i_message_id = ''m1'', i_from = ''+1'', i_to = ''+9'',
        i_ts = ''2025-01-15T12:00:00Z'', i_text = Some ''Hello''\<rparr>]"
    by (simp only: page.simps)
  have d: "distinct (map message_id ?tbl) \<and> distinct (map message_id ?tbl') \<and> set ?tbl' = set ?tbl"
    by auto
  from get_messages_ordered [OF e, THEN conjunct2, rule_format, OF d]
  have e': "get_messages ?tbl' 50 0 None None None = Inr ?page" .
  from e s e' show ?thesis by (intro conjI)
qed

section \<open>Pagination\<close>

lemma length_limit_offset:
  "0 \<le> lim \<Longrightarrow> int (length (limit_offset lim off rows)) \<le> lim"
  by (simp add: limit_offset_def Let_def)

lemma limit_offset_beyond:
  "int (length rows) \<le> off \<Longrightarrow> limit_offset lim off rows = []"
  by (simp add: limit_offset_def Let_def)

text \<open>
  What a page holds when \<open>get_messages\<close> returns one: \<open>total\<close> is the number of rows that
  pass the \<open>WHERE\<close> clause, whatever \<open>limit\<close> and \<open>offset\<close> are; for a non-negative \<open>limit\<close>
  the page has at most \<open>limit\<close> items; an \<open>offset\<close> of at least \<open>total\<close> gives no item.
\<close>

lemma get_messages_page:
  assumes "get_messages tbl lim off from_filter since q = Inr r"
  shows "pg_total r =
           int (length (filter (\<lambda>m. where_row (conditions from_filter since q) m = Inr True) tbl)) \<and>
         (0 \<le> lim \<longrightarrow> int (length (pg_data r)) \<le> lim) \<and>
         (pg_total r \<le> off \<longrightarrow> pg_data r = [])"
proof -
  from assms obtain rows where w: "where_rows (conditions from_filter since q) tbl = Inr rows"
    and r: "r = \<lparr>pg_data = map to_item (limit_offset lim off (order_by_ts_message_id rows)),
                  pg_total = int (length rows), pg_limit = lim, pg_offset = off\<rparr>"
    by (auto simp: get_messages_def split: sum.splits if_splits)
  have len: "length (order_by_ts_message_id rows) = length rows"
    by (simp add: order_by_ts_message_id_def)
  have a: "0 \<le> lim \<longrightarrow> int (length (limit_offset lim off (order_by_ts_message_id rows))) \<le> lim"
    using length_limit_offset [of lim off "order_by_ts_message_id rows"] by simp
  have b: "int (length rows) \<le> off \<longrightarrow> limit_offset lim off (order_by_ts_message_id rows) = []"
    using limit_offset_beyond [of "order_by_ts_message_id rows" off lim] len by simp
  from where_rows_Inr [OF w] a b show ?thesis by (simp add: r)
qed

text \<open>
  When it returns one: when \<open>limit\<close> and \<open>offset\<close> fit in 64 bits and the pattern built from
  \<open>q\<close>, if there is one, is within the limit of \<open>LIKE\<close>.
\<close>

lemma holds_returns:
  "(\<forall>p. c = TextLike p \<longrightarrow> length (encode_utf8 p) \<le> 50000) \<Longrightarrow> \<exists>b. holds c m = Inr b"
  by (cases c) auto

lemma where_row_returns:
  "(\<forall>p. TextLike p \<in> set conds \<longrightarrow> length (encode_utf8 p) \<le> 50000) \<Longrightarrow>
   \<exists>b. where_row conds m = Inr b"
proof (induction conds)
  case Nil
  show ?case by auto
next
  case (Cons c conds)
  from Cons.prems obtain b where b: "holds c m = Inr b"
    using holds_returns [of c m] by auto
  from Cons.prems obtain b' where b': "where_row conds m = Inr b'"
    using Cons.IH by auto
  from b b' show ?case by auto
qed

lemma get_messages_returns:
  assumes "int64 lim" and "int64 off"
    and "truthy q \<longrightarrow> length (encode_utf8 (''%'' @ py_lower (str_of q) @ ''%'')) \<le> 50000"
  shows "\<exists>r. get_messages tbl lim off from_filter since q = Inr r"
proof -
  have "\<forall>p. TextLike p \<in> set (conditions from_filter since q) \<longrightarrow>
            length (encode_utf8 p) \<le> 50000"
    using assms(3) by (auto simp: conditions_def split: if_splits)
  then have "\<forall>m \<in> set tbl. \<exists>b. where_row (conditions from_filter since q) m = Inr b"
    by (blast intro: where_row_returns)
  then show ?thesis using assms(1,2) by (simp add: get_messages_def where_rows_eq)
qed

text \<open>
  Claim C4 at an \<open>offset\<close> of \<open>2^63\<close>, which the query endpoint admits (it asks for
  \<open>offset \<ge> 0\<close> only). One row is stored and no filter is set, so the offset is at least
  the number of matching rows; binding it for the data query raises \<open>OverflowError\<close>,
  which nothing catches, so no page with an empty item list and the unchanged total comes
  back. At the offset just below, \<open>2^63 - 1\<close>, the result is the one that the claim
  describes.
\<close>

theorem get_messages_offset_overflow:
  "get_messages
     [\<lparr>message_id = ''m1'', from_msisdn = ''+1'', to_msisdn = ''+9'',
        ts = ''2025-01-15T12:00:00Z'', msg_text = Some ''Hello'', created_at = ''c1''\<rparr>]
     50 9223372036854775808 None None None
   = Inl OverflowError \<and>
   get_messages
     [\<lparr>message_id = ''m1'', from_msisdn = ''+1'', to_msisdn = ''+9'',
        ts = ''2025-01-15T12:00:00Z'', msg_text = Some ''Hello'', created_at = ''c1''\<rparr>]
     50 9223372036854775807 None None None
   = Inr \<lparr>pg_data = [], pg_total = 1, pg_limit = 50, pg_offset = 9223372036854775807\<rparr>"
  by (simp add: get_messages_def conditions_def truthy_def int64_def
        order_by_ts_message_id_def limit_offset_def)

text \<open>
  The other way in which a query ends without a page: a \<open>q\<close> of 49999 characters makes a
  pattern of 50001 bytes, and the first row that reaches the \<open>LIKE\<close> condition raises
  \<open>OperationalError\<close>.
\<close>

lemma length_encode_utf8: "length s \<le> length (encode_utf8 s)"
proof (induction s)
  case Nil
  then show ?case by (simp add: encode_utf8_def)
next
  case (Cons c s)
  have "encode_utf8 (c # s) = encode_utf8 [c] @ encode_utf8 s" by (simp add: encode_utf8_def)
  moreover have "1 \<le> length (encode_utf8 [c])" by (simp add: encode_utf8_def Let_def)
  ultimately show ?case using Cons.IH by simp
qed

lemma get_messages_like_too_complex:
  "get_messages
     [\<lparr>message_id = ''m1'', from_msisdn = ''+1'', to_msisdn = ''+9'',
        ts = ''2025-01-15T12:00:00Z'', msg_text = Some ''Hello'', created_at = ''c1''\<rparr>]
     50 0 None None (Some (replicate 49999 CHR ''a''))
   = Inl OperationalError"
proof -
  let ?p = "''%'' @ py_lower (replicate 49999 CHR ''a'') @ ''%''"
  have "length ?p = 50001" by (simp add: py_lower_def)
  with length_encode_utf8 [of ?p] have "50000 < length (encode_utf8 ?p)" by simp
  moreover have "truthy (Some (replicate 49999 CHR ''a''))"
    by (simp add: truthy_def replicate_empty)
  ultimately show ?thesis by (simp add: get_messages_def conditions_def str_of_def truthy_def)
qed

section \<open>The text filter\<close>

lemma where_row_conditions:
  assumes "truthy q \<longrightarrow> length (encode_utf8 (''%'' @ py_lower (str_of q) @ ''%'')) \<le> 50000"
  shows "where_row (conditions from_filter since q) m = Inr True \<longleftrightarrow>
     (truthy from_filter \<longrightarrow> from_msisdn m = str_of from_filter) \<and>
     (truthy since \<longrightarrow> str_of since \<le> ts m) \<and>
     (truthy q \<longrightarrow>
        (\<exists>t. msg_text m = Some t \<and>
             like (c_str (''%'' @ py_lower (str_of q) @ ''%'')) (c_str (sqlite_lower t))))"
  using assms by (auto simp: conditions_def split: option.splits)

lemma like_percent: "like ''%'' s"
  by (induction s) simp_all

lemma like_prefix:
  "CHR ''%'' \<notin> set p \<Longrightarrow> CHR ''_'' \<notin> set p \<Longrightarrow>
   like (p @ ''%'') s \<longleftrightarrow>
     length p \<le> length s \<and> map sqlite_lower_char (take (length p) s) = map sqlite_lower_char p"
proof (induction p arbitrary: s)
  case Nil
  then show ?case by (simp add: like_percent)
next
  case (Cons a p)
  show ?case
  proof (cases s)
    case Nil
    with Cons.prems show ?thesis by auto
  next
    case (Cons c s')
    with Cons.prems Cons.IH [of s'] show ?thesis by auto
  qed
qed

lemma like_anywhere:
  "like (CHR ''%'' # q) s \<longleftrightarrow> (\<exists>i \<le> length s. like q (drop i s))"
proof (induction s)
  case Nil
  then show ?case by simp
next
  case (Cons c s)
  have "(\<exists>i \<le> length (c # s). like q (drop i (c # s))) \<longleftrightarrow>
        like q (c # s) \<or> (\<exists>i \<le> length s. like q (drop i s))"
  proof
    assume "\<exists>i \<le> length (c # s). like q (drop i (c # s))"
    then obtain i where i: "i \<le> length (c # s)" "like q (drop i (c # s))" by blast
    then show "like q (c # s) \<or> (\<exists>i \<le> length s. like q (drop i s))"
      by (cases i) auto
  next
    assume "like q (c # s) \<or> (\<exists>i \<le> length s. like q (drop i s))"
    then show "\<exists>i \<le> length (c # s). like q (drop i (c # s))"
    proof
      assume "like q (c # s)"
      then have "0 \<le> length (c # s) \<and> like q (drop 0 (c # s))" by simp
      then show ?thesis by blast
    next
      assume "\<exists>i \<le> length s. like q (drop i s)"
      then obtain i where "i \<le> length s" "like q (drop i s)" by blast
      then have "Suc i \<le> length (c # s) \<and> like q (drop (Suc i) (c # s))" by simp
      then show ?thesis by blast
    qed
  qed
  with Cons.IH show ?case by simp
qed

lemma of_char_sqlite_lower_char:
  "(of_char (sqlite_lower_char c) :: nat) =
     (if 65 \<le> (of_char c :: nat) \<and> (of_char c :: nat) \<le> 90 then of_char c + 32 else of_char c)"
  by (simp add: sqlite_lower_char_def Let_def)

lemma sqlite_lower_char_idem: "sqlite_lower_char (sqlite_lower_char c) = sqlite_lower_char c"
proof -
  have e: "sqlite_lower_char x =
             (if 65 \<le> (of_char x :: nat) \<and> (of_char x :: nat) \<le> 90 then char_of (of_char x + 32 :: nat) else x)"
    for x by (simp add: sqlite_lower_char_def Let_def)
  have n: "\<not> (65 \<le> (of_char (sqlite_lower_char c) :: nat) \<and> (of_char (sqlite_lower_char c) :: nat) \<le> 90)"
    by (simp add: of_char_sqlite_lower_char)
  from e [of "sqlite_lower_char c"] n show ?thesis by (simp only: if_False)
qed

lemma py_lower_char_ascii:
  "(of_char c :: nat) < 128 \<Longrightarrow> py_lower_char c = sqlite_lower_char c"
  by (auto simp: py_lower_char_def sqlite_lower_char_def Let_def)

lemma py_lower_ascii: "is_ascii s \<Longrightarrow> py_lower s = sqlite_lower s"
  by (induction s) (simp_all add: is_ascii_def py_lower_def sqlite_lower_def py_lower_char_ascii)

lemma of_char_py_lower_char:
  "(of_char (py_lower_char c) :: nat) =
     (if (65 \<le> (of_char c :: nat) \<and> (of_char c :: nat) \<le> 90) \<or>
         (192 \<le> (of_char c :: nat) \<and> (of_char c :: nat) \<le> 222 \<and> (of_char c :: nat) \<noteq> 215)
      then of_char c + 32 else of_char c)"
  by (simp add: py_lower_char_def Let_def)

lemma py_lower_char_no_wildcard:
  assumes "c \<noteq> CHR ''%''" and "c \<noteq> CHR ''_''"
  shows "py_lower_char c \<noteq> CHR ''%'' \<and> py_lower_char c \<noteq> CHR ''_''"
proof -
  have a: "(of_char c :: nat) \<noteq> 37"
  proof
    assume "(of_char c :: nat) = 37"
    then have "(of_char c :: nat) = of_char CHR ''%''" by simp
    then have "c = CHR ''%''" by (simp only: of_char_eq_iff)
    with assms(1) show False by simp
  qed
  have b: "(of_char c :: nat) \<noteq> 95"
  proof
    assume "(of_char c :: nat) = 95"
    then have "(of_char c :: nat) = of_char CHR ''_''" by simp
    then have "c = CHR ''_''" by (simp only: of_char_eq_iff)
    with assms(2) show False by simp
  qed
  have "(of_char (py_lower_char c) :: nat) \<noteq> 37 \<and> (of_char (py_lower_char c) :: nat) \<noteq> 95"
    using a b by (simp add: of_char_py_lower_char)
  then show ?thesis by auto
qed

lemma py_lower_no_wildcard:
  assumes "CHR ''%'' \<notin> set q" and "CHR ''_'' \<notin> set q"
  shows "CHR ''%'' \<notin> set (py_lower q) \<and> CHR ''_'' \<notin> set (py_lower q)"
proof -
  have h: "py_lower_char c \<noteq> CHR ''%'' \<and> py_lower_char c \<noteq> CHR ''_''" if "c \<in> set q" for c
    using that assms by (intro py_lower_char_no_wildcard) auto
  show ?thesis
  proof (intro conjI notI)
    assume "CHR ''%'' \<in> set (py_lower q)"
    then obtain c where "c \<in> set q" and "py_lower_char c = CHR ''%''"
      unfolding py_lower_def by force
    with h show False by blast
  next
    assume "CHR ''_'' \<in> set (py_lower q)"
    then obtain c where "c \<in> set q" and "py_lower_char c = CHR ''_''"
      unfolding py_lower_def by force
    with h show False by blast
  qed
qed

lemma sqlite_lower_idem: "map sqlite_lower_char (sqlite_lower s) = sqlite_lower s"
  by (simp add: sqlite_lower_def sqlite_lower_char_idem)

lemma sqlite_lower_char_nul: "sqlite_lower_char c = CHR 0x00 \<longleftrightarrow> c = CHR 0x00"
proof
  assume "sqlite_lower_char c = CHR 0x00"
  then have "(of_char (sqlite_lower_char c) :: nat) = 0" by simp
  then have "(of_char c :: nat) = of_char CHR 0x00"
    by (simp add: of_char_sqlite_lower_char split: if_splits)
  then show "c = CHR 0x00" by (simp only: of_char_eq_iff)
next
  assume "c = CHR 0x00"
  then show "sqlite_lower_char c = CHR 0x00" by (simp add: sqlite_lower_char_def)
qed

lemma py_lower_char_nul: "py_lower_char c = CHR 0x00 \<longleftrightarrow> c = CHR 0x00"
proof
  assume "py_lower_char c = CHR 0x00"
  then have "(of_char (py_lower_char c) :: nat) = 0" by simp
  then have "(of_char c :: nat) = of_char CHR 0x00"
    by (simp add: of_char_py_lower_char split: if_splits)
  then show "c = CHR 0x00" by (simp only: of_char_eq_iff)
next
  assume "c = CHR 0x00"
  then show "py_lower_char c = CHR 0x00" by (simp add: py_lower_char_def)
qed

lemma c_str_id: "CHR 0x00 \<notin> set s \<Longrightarrow> c_str s = s"
  unfolding c_str_def by (rule takeWhile_eq_all_conv [THEN iffD2]) auto

text \<open>
  Where the text filter does what the spec says: for a query and a text in ASCII without
  U+0000, the query holding neither \<open>%\<close> nor \<open>_\<close>, the \<open>LIKE\<close> condition is the
  case-insensitive substring test.
\<close>

lemma like_is_substring_ci:
  assumes "CHR ''%'' \<notin> set q" and "CHR ''_'' \<notin> set q" and "is_ascii q" and "is_ascii t"
    and "CHR 0x00 \<notin> set q" and "CHR 0x00 \<notin> set t"
  shows "like (c_str (''%'' @ py_lower q @ ''%'')) (c_str (sqlite_lower t)) \<longleftrightarrow> substring_ci q t"
proof -
  let ?p = "py_lower q" and ?s = "sqlite_lower t"
  have "py_lower_char c \<noteq> CHR 0x00" if "c \<in> set q" for c
    using that assms(5) by (auto simp: py_lower_char_nul)
  then have "CHR 0x00 \<notin> set (''%'' @ ?p @ ''%'')"
    by (force simp: py_lower_def)
  then have cp: "c_str (''%'' @ ?p @ ''%'') = ''%'' @ ?p @ ''%''" by (rule c_str_id)
  have "sqlite_lower_char c \<noteq> CHR 0x00" if "c \<in> set t" for c
    using that assms(6) by (auto simp: sqlite_lower_char_nul)
  then have "CHR 0x00 \<notin> set ?s"
    by (force simp: sqlite_lower_def)
  then have cs: "c_str ?s = ?s" by (rule c_str_id)
  have nw: "CHR ''%'' \<notin> set ?p" "CHR ''_'' \<notin> set ?p"
    using py_lower_no_wildcard [OF assms(1,2)] by simp_all
  have pq: "?p = sqlite_lower q" using assms(3) by (rule py_lower_ascii)
  have pt: "py_lower t = ?s" using assms(4) by (rule py_lower_ascii)
  have lp: "length ?p = length q" by (simp add: py_lower_def)
  have ls: "length ?s = length t" by (simp add: sqlite_lower_def)
  have mp: "map sqlite_lower_char ?p = ?p" unfolding pq by (rule sqlite_lower_idem)
  have ms: "map sqlite_lower_char (take n (drop i ?s)) = take n (drop i ?s)" for n i
    by (simp add: take_map [symmetric] drop_map [symmetric] sqlite_lower_idem)
  have "like (''%'' @ ?p @ ''%'') ?s \<longleftrightarrow> (\<exists>i \<le> length ?s. like (?p @ ''%'') (drop i ?s))"
    using like_anywhere [of "?p @ ''%''" ?s] by simp
  also have "\<dots> \<longleftrightarrow> (\<exists>i \<le> length t. length q \<le> length t - i \<and> take (length q) (drop i ?s) = ?p)"
    by (simp add: like_prefix [OF nw] lp ls mp ms)
  also have "\<dots> \<longleftrightarrow> (\<exists>i \<le> length t. take (length q) (drop i ?s) = ?p)"
  proof -
    have "length q \<le> length t - i" if "take (length q) (drop i ?s) = ?p" for i
    proof -
      from that have "length (take (length q) (drop i ?s)) = length ?p" by simp
      then show ?thesis by (simp add: lp ls)
    qed
    then show ?thesis by blast
  qed
  also have "\<dots> \<longleftrightarrow> substring_ci q t"
    by (simp add: substring_ci_def list_ex_iff pt Bex_def less_Suc_eq_le del: upt_Suc)
  finally show ?thesis by (simp only: cp cs)
qed

text \<open>
  Claim C5 at the input \<open>q = "_"\<close>. The query is spliced into the \<open>LIKE\<close> pattern
  unescaped, so the pattern is \<open>%_%\<close> and matches every row whose text has at least one
  character: the row with text \<open>Hello\<close> is returned, although \<open>_\<close> does not occur in it.
\<close>

theorem get_messages_like_wildcard:
  "get_messages
     [\<lparr>message_id = ''m1'', from_msisdn = ''+1'', to_msisdn = ''+9'',
        ts = ''2025-01-15T12:00:00Z'', msg_text = Some ''Hello'', created_at = ''c1''\<rparr>]
     50 0 None None (Some ''_'')
   = Inr \<lparr>pg_data =
            [\<lparr>i_message_id = ''m1'', i_from = ''+1'', i_to = ''+9'',
               i_ts = ''2025-01-15T12:00:00Z'', i_text = Some ''Hello''\<rparr>],
          pg_total = 1, pg_limit = 50, pg_offset = 0\<rparr> \<and>
   \<not> substring_ci ''_'' ''Hello''"
proof -
  have a: "py_lower ''_'' = ''_''" by code_simp
  have b: "length (encode_utf8 ''%_%'') = 3" by code_simp
  have c: "like (c_str ''%_%'') (c_str (sqlite_lower ''Hello''))" by code_simp
  have d: "\<not> substring_ci ''_'' ''Hello''" by code_simp
  from a b c d show ?thesis
    by (simp add: get_messages_def conditions_def truthy_def str_of_def int64_def
          order_by_ts_message_id_def limit_offset_def to_item_def)
qed

section \<open>Empty filters\<close>

text \<open>
  Claim C10. Each filter is gated on its truth value, so an empty string for
  \<open>from_filter\<close>, \<open>since\<close> or \<open>q\<close> gives the result of the call with that parameter absent.
\<close>

theorem get_messages_empty_filter_is_absent:
  "get_messages tbl lim off (Some []) since q = get_messages tbl lim off None since q \<and>
   get_messages tbl lim off from_filter (Some []) q = get_messages tbl lim off from_filter None q \<and>
   get_messages tbl lim off from_filter since (Some []) = get_messages tbl lim off from_filter since None"
  by (simp add: get_messages_def conditions_def truthy_def)

theorem get_messages_empty_filter_is_absent_witness:
  "get_messages
     [\<lparr>message_id = ''m1'', from_msisdn = ''+1'', to_msisdn = ''+9'',
        ts = ''2025-01-15T12:00:00Z'', msg_text = Some ''Hello'', created_at = ''c1''\<rparr>]
     50 0 (Some []) None None
   = Inr \<lparr>pg_data =
            [\<lparr>i_message_id = ''m1'', i_from = ''+1'', i_to = ''+9'',
               i_ts = ''2025-01-15T12:00:00Z'', i_text = Some ''Hello''\<rparr>],
          pg_total = 1, pg_limit = 50, pg_offset = 0\<rparr>"
proof -
  have "get_messages
     [\<lparr>message_id = ''m1'', from_msisdn = ''+1'', to_msisdn = ''+9'',
        ts = ''2025-01-15T12:00:00Z'', msg_text = Some ''Hello'', created_at = ''c1''\<rparr>]
     50 0 None None None
   = Inr \<lparr>pg_data =
            [\<lparr>i_message_id = ''m1'', i_from = ''+1'', i_to = ''+9'',
               i_ts = ''2025-01-15T12:00:00Z'', i_text = Some ''Hello''\<rparr>],
          pg_total = 1, pg_limit = 50, pg_offset = 0\<rparr>"
    by code_simp
  with get_messages_empty_filter_is_absent [THEN conjunct1] show ?thesis by (rule trans)
qed

section \<open>Aggregates\<close>

lemma fold_min_Min: "fold min xs (x::'a::linorder) = Min (set (x # xs))"
  by (metis Min.set_eq_fold)

lemma fold_max_Max: "fold max xs (x::'a::linorder) = Max (set (x # xs))"
  by (metis Max.set_eq_fold)

lemma sql_min_eq: "sql_min xs = (if xs = [] then None else Some (Min (set xs)))"
  by (cases xs) (simp_all add: sql_min_def fold_min_Min del: set_simps)

lemma sql_max_eq: "sql_max xs = (if xs = [] then None else Some (Max (set xs)))"
  by (cases xs) (simp_all add: sql_max_def fold_max_Max del: set_simps)

lemma set_group_by_from:
  "set (group_by_from tbl) = (\<lambda>f. (f, count_from tbl f)) ` from_msisdn ` set tbl"
  by (simp add: group_by_from_def)

lemma distinct_group_by_from: "distinct (map fst (group_by_from tbl))"
  by (simp add: group_by_from_def comp_def)

lemma top_senders_sorted: "sorted_wrt (\<lambda>a b. snd b \<le> snd a) (top_senders groups)"
proof -
  have "sorted (map (\<lambda>p. - int (snd p)) (sort_key (\<lambda>p. - int (snd p)) groups))"
    by (rule sorted_sort_key)
  then have "sorted_wrt (\<lambda>a b. snd b \<le> snd a) (sort_key (\<lambda>p. - int (snd p)) groups)"
    by (simp add: sorted_map)
  then show ?thesis unfolding top_senders_def by (rule sorted_wrt_take)
qed

lemma top_senders_subset: "set (top_senders groups) \<subseteq> set groups"
  unfolding top_senders_def using set_take_subset [of 10 "sort_key (\<lambda>p. - int (snd p)) groups"]
  by simp

lemma top_senders_length:
  "length (top_senders groups) = min 10 (length groups)"
  by (simp add: top_senders_def)

lemma top_senders_distinct:
  "distinct (map fst groups) \<Longrightarrow> distinct (map fst (top_senders groups))"
proof -
  assume d: "distinct (map fst groups)"
  let ?s = "sort_key (\<lambda>p. - int (snd p)) groups"
  have "mset (map fst ?s) = mset (map fst groups)" by simp
  with d have "distinct (map fst ?s)" by (metis mset_eq_imp_distinct_iff)
  then have "distinct (take 10 (map fst ?s))" by (rule distinct_take)
  then show ?thesis by (simp add: top_senders_def take_map)
qed

lemma top_senders_top:
  assumes "p \<in> set groups" and "p \<notin> set (top_senders groups)" and "t \<in> set (top_senders groups)"
  shows "snd p \<le> snd t"
proof -
  let ?s = "sort_key (\<lambda>p. - int (snd p)) groups"
  have "sorted (map (\<lambda>p. - int (snd p)) ?s)" by (rule sorted_sort_key)
  then have "sorted_wrt (\<lambda>a b. snd b \<le> snd a) ?s"
    by (simp add: sorted_map)
  then have "sorted_wrt (\<lambda>a b. snd b \<le> snd a) (take 10 ?s @ drop 10 ?s)"
    by (simp only: append_take_drop_id)
  then have cross: "\<forall>a \<in> set (take 10 ?s). \<forall>b \<in> set (drop 10 ?s). snd b \<le> snd a"
    by (simp only: sorted_wrt_append) blast
  have "p \<in> set ?s" using assms(1) by simp
  then have "p \<in> set (take 10 ?s @ drop 10 ?s)" by (simp only: append_take_drop_id)
  then have "p \<in> set (take 10 ?s) \<or> p \<in> set (drop 10 ?s)" by (simp only: set_append Un_iff)
  with assms(2) have "p \<in> set (drop 10 ?s)" unfolding top_senders_def by blast
  with cross assms(3) show ?thesis by (auto simp: top_senders_def)
qed

lemma get_stats_row_order:
  assumes "mset tbl = mset tbl'"
  shows "get_stats tbl = get_stats tbl'"
proof -
  have s: "set tbl = set tbl'" using assms by (rule mset_eq_setD)
  have l: "length tbl = length tbl'" using assms by (rule mset_eq_length)
  have c: "count_from tbl f = count_from tbl' f" for f
  proof -
    have "mset (filter (\<lambda>m. from_msisdn m = f) tbl) = mset (filter (\<lambda>m. from_msisdn m = f) tbl')"
      using assms by simp
    then show ?thesis unfolding count_from_def by (rule mset_eq_length)
  qed
  have f: "set (map from_msisdn tbl) = set (map from_msisdn tbl')" using s by simp
  have r: "sort (remdups (map from_msisdn tbl)) = sort (remdups (map from_msisdn tbl'))"
    using f by (metis sorted_list_of_set_sort_remdups)
  have n: "length (remdups (map from_msisdn tbl)) = length (remdups (map from_msisdn tbl'))"
    using f by (metis length_remdups_card_conv)
  have g: "group_by_from tbl = group_by_from tbl'"
    by (simp add: group_by_from_def r c)
  have e: "tbl = [] \<longleftrightarrow> tbl' = []" using l by auto
  have mn: "sql_min (map ts tbl) = sql_min (map ts tbl')"
    and mx: "sql_max (map ts tbl) = sql_max (map ts tbl')"
    by (simp_all add: sql_min_eq sql_max_eq e s)
  show ?thesis by (simp add: get_stats_def l n g mn mx)
qed

text \<open>
  Claim C6. For every table, \<open>get_stats\<close> returns: \<open>total_messages\<close>, the number of rows;
  \<open>senders_count\<close>, the number of distinct \<open>from\<close> values; \<open>messages_per_sender\<close>, at most
  ten pairs (in fact ten, or all senders when there are fewer), of distinct senders of the
  table, each with the number of rows of that sender, sorted by count descending, and no
  sender left out has more rows than a sender listed; \<open>first_message_ts\<close> and
  \<open>last_message_ts\<close>, the least and the greatest \<open>ts\<close> under string comparison, or both
  \<open>None\<close> on the empty table. The result depends on the rows stored only, not on the order
  in which the table holds them.
\<close>

theorem get_stats_correct:
  "total_messages (get_stats tbl) = int (length tbl) \<and>
   senders_count (get_stats tbl) = int (card (from_msisdn ` set tbl)) \<and>
   length (messages_per_sender (get_stats tbl)) \<le> 10 \<and>
   length (messages_per_sender (get_stats tbl)) = min 10 (card (from_msisdn ` set tbl)) \<and>
   sorted_wrt (\<lambda>a b. snd b \<le> snd a) (messages_per_sender (get_stats tbl)) \<and>
   distinct (map fst (messages_per_sender (get_stats tbl))) \<and>
   (\<forall>(f, c) \<in> set (messages_per_sender (get_stats tbl)).
      f \<in> from_msisdn ` set tbl \<and> c = length (filter (\<lambda>m. from_msisdn m = f) tbl)) \<and>
   (\<forall>f \<in> from_msisdn ` set tbl. f \<notin> fst ` set (messages_per_sender (get_stats tbl)) \<longrightarrow>
      (\<forall>(g, c) \<in> set (messages_per_sender (get_stats tbl)).
         length (filter (\<lambda>m. from_msisdn m = f) tbl) \<le> c)) \<and>
   (tbl = [] \<longrightarrow> first_message_ts (get_stats tbl) = None \<and> last_message_ts (get_stats tbl) = None) \<and>
   (tbl \<noteq> [] \<longrightarrow> first_message_ts (get_stats tbl) = Some (Min (ts ` set tbl)) \<and>
                  last_message_ts (get_stats tbl) = Some (Max (ts ` set tbl))) \<and>
   (\<forall>tbl'. mset tbl' = mset tbl \<longrightarrow> get_stats tbl' = get_stats tbl)"
proof -
  let ?mps = "top_senders (group_by_from tbl)"
  have m: "messages_per_sender (get_stats tbl) = ?mps" by (simp add: get_stats_def)
  have c1: "total_messages (get_stats tbl) = int (length tbl)" by (simp add: get_stats_def)
  have card: "length (remdups (map from_msisdn tbl)) = card (from_msisdn ` set tbl)"
    by (simp add: length_remdups_card_conv)
  have c2: "senders_count (get_stats tbl) = int (card (from_msisdn ` set tbl))"
    by (simp add: get_stats_def card)
  have c4: "length ?mps = min 10 (card (from_msisdn ` set tbl))"
    by (simp add: top_senders_length group_by_from_def card)
  then have c3: "length ?mps \<le> 10" by simp
  have c5: "sorted_wrt (\<lambda>a b. snd b \<le> snd a) ?mps" by (rule top_senders_sorted)
  have c6: "distinct (map fst ?mps)" by (rule top_senders_distinct) (rule distinct_group_by_from)
  have c7: "\<forall>(f, c) \<in> set ?mps.
      f \<in> from_msisdn ` set tbl \<and> c = length (filter (\<lambda>m. from_msisdn m = f) tbl)"
    using top_senders_subset [of "group_by_from tbl"]
    by (auto simp: set_group_by_from count_from_def)
  have c8: "\<forall>f \<in> from_msisdn ` set tbl. f \<notin> fst ` set ?mps \<longrightarrow>
      (\<forall>(g, c) \<in> set ?mps. length (filter (\<lambda>m. from_msisdn m = f) tbl) \<le> c)"
  proof (intro ballI impI)
    fix f t
    assume f: "f \<in> from_msisdn ` set tbl" and nf: "f \<notin> fst ` set ?mps" and t: "t \<in> set ?mps"
    let ?p = "(f, count_from tbl f)"
    have "?p \<in> set (group_by_from tbl)" using f by (simp add: set_group_by_from)
    moreover have "?p \<notin> set ?mps" using nf by force
    ultimately have "snd ?p \<le> snd t" using t by (rule top_senders_top)
    then show "case t of (g, c) \<Rightarrow> length (filter (\<lambda>m. from_msisdn m = f) tbl) \<le> c"
      by (cases t) (simp add: count_from_def)
  qed
  have c9: "tbl = [] \<longrightarrow> first_message_ts (get_stats tbl) = None \<and> last_message_ts (get_stats tbl) = None"
    by (simp add: get_stats_def sql_min_def sql_max_def)
  have c10: "tbl \<noteq> [] \<longrightarrow> first_message_ts (get_stats tbl) = Some (Min (ts ` set tbl)) \<and>
                  last_message_ts (get_stats tbl) = Some (Max (ts ` set tbl))"
    by (simp add: get_stats_def sql_min_eq sql_max_eq)
  have c11: "\<forall>tbl'. mset tbl' = mset tbl \<longrightarrow> get_stats tbl' = get_stats tbl"
    by (intro allI impI) (rule get_stats_row_order)
  from c1 c2 c3 c4 c5 c6 c7 c8 c9 c10 c11 show ?thesis unfolding m by (intro conjI)
qed

theorem get_stats_correct_witness:
  "get_stats
     (map (\<lambda>(i, f, t). \<lparr>message_id = i, from_msisdn = f, to_msisdn = ''+9'', ts = t,
                         msg_text = None, created_at = ''c''\<rparr>)
        [(''a'', ''+10'', ''2025-01-15T10:00:00Z''), (''b'', ''+11'', ''2025-01-15T11:00:00Z''),
         (''c'', ''+12'', ''2025-01-15T12:00:00Z''), (''d'', ''+13'', ''2025-01-15T13:00:00Z''),
         (''e'', ''+14'', ''2025-01-15T14:00:00Z''), (''f'', ''+15'', ''2025-01-15T15:00:00Z''),
         (''g'', ''+16'', ''2025-01-15T16:00:00Z''), (''h'', ''+17'', ''2025-01-15T17:00:00Z''),
         (''i'', ''+18'', ''2025-01-15T18:00:00Z''), (''j'', ''+19'', ''2025-01-15T19:00:00Z''),
         (''k'', ''+20'', ''2025-01-15T09:00:00Z''), (''l'', ''+15'', ''2025-01-15T20:00:00Z'')])
   = \<lparr>total_messages = 12, senders_count = 11,
      messages_per_sender =
        [(''+15'', 2), (''+10'', 1), (''+11'', 1), (''+12'', 1), (''+13'', 1), (''+14'', 1),
         (''+16'', 1), (''+17'', 1), (''+18'', 1), (''+19'', 1)],
      first_message_ts = Some ''2025-01-15T09:00:00Z'',
      last_message_ts = Some ''2025-01-15T20:00:00Z''\<rparr> \<and>
   length (filter (\<lambda>m. from_msisdn m = ''+20'')
     (map (\<lambda>(i, f, t). \<lparr>message_id = i, from_msisdn = f, to_msisdn = ''+9'', ts = t,
                         msg_text = None, created_at = ''c''\<rparr>)
        [(''a'', ''+10'', ''2025-01-15T10:00:00Z''), (''b'', ''+11'', ''2025-01-15T11:00:00Z''),
         (''c'', ''+12'', ''2025-01-15T12:00:00Z''), (''d'', ''+13'', ''2025-01-15T13:00:00Z''),
         (''e'', ''+14'', ''2025-01-15T14:00:00Z''), (''f'', ''+15'', ''2025-01-15T15:00:00Z''),
         (''g'', ''+16'', ''2025-01-15T16:00:00Z''), (''h'', ''+17'', ''2025-01-15T17:00:00Z''),
         (''i'', ''+18'', ''2025-01-15T18:00:00Z''), (''j'', ''+19'', ''2025-01-15T19:00:00Z''),
         (''k'', ''+20'', ''2025-01-15T09:00:00Z''), (''l'', ''+15'', ''2025-01-15T20:00:00Z'')]))
     \<le> 1"
proof -
  let ?T = "map (\<lambda>(i, f, t). \<lparr>message_id = i, from_msisdn = f, to_msisdn = ''+9'', ts = t,
                         msg_text = None, created_at = ''c''\<rparr>)
        [(''a'', ''+10'', ''2025-01-15T10:00:00Z''), (''b'', ''+11'', ''2025-01-15T11:00:00Z''),
         (''c'', ''+12'', ''2025-01-15T12:00:00Z''), (''d'', ''+13'', ''2025-01-15T13:00:00Z''),
         (''e'', ''+14'', ''2025-01-15T14:00:00Z''), (''f'', ''+15'', ''2025-01-15T15:00:00Z''),
         (''g'', ''+16'', ''2025-01-15T16:00:00Z''), (''h'', ''+17'', ''2025-01-15T17:00:00Z''),
         (''i'', ''+18'', ''2025-01-15T18:00:00Z''), (''j'', ''+19'', ''2025-01-15T19:00:00Z''),
         (''k'', ''+20'', ''2025-01-15T09:00:00Z''), (''l'', ''+15'', ''2025-01-15T20:00:00Z'')]"
  let ?mps = "[(''+15'', 2::nat), (''+10'', 1), (''+11'', 1), (''+12'', 1), (''+13'', 1), (''+14'', 1),
         (''+16'', 1), (''+17'', 1), (''+18'', 1), (''+19'', 1)]"
  have e: "get_stats ?T = \<lparr>total_messages = 12, senders_count = 11,
      messages_per_sender = ?mps,
      first_message_ts = Some ''2025-01-15T09:00:00Z'',
      last_message_ts = Some ''2025-01-15T20:00:00Z''\<rparr>"
    by code_simp
  have m: "messages_per_sender (get_stats ?T) = ?mps" by (simp only: e stats.simps)
  have "\<forall>f \<in> from_msisdn ` set ?T. f \<notin> fst ` set (messages_per_sender (get_stats ?T)) \<longrightarrow>
      (\<forall>(g, c) \<in> set (messages_per_sender (get_stats ?T)).
         length (filter (\<lambda>m. from_msisdn m = f) ?T) \<le> c)"
    using get_stats_correct [of ?T] by (elim conjE)
  then have top: "\<forall>f \<in> from_msisdn ` set ?T. f \<notin> fst ` set ?mps \<longrightarrow>
      (\<forall>(g, c) \<in> set ?mps. length (filter (\<lambda>m. from_msisdn m = f) ?T) \<le> c)"
    by (simp only: m)
  have a: "''+20'' \<in> from_msisdn ` set ?T" by simp
  have b: "''+20'' \<notin> fst ` set ?mps" by simp
  have c: "(''+19'', 1) \<in> set ?mps" by simp
  from top a b c have "length (filter (\<lambda>m. from_msisdn m = ''+20'') ?T) \<le> 1" by fast
  with e show ?thesis by (rule conjI)
qed

section \<open>Signature verification\<close>

lemma hex_digit_ascii: "(of_char (hex_digit n) :: nat) < 128"
proof -
  have "n mod 16 < length ''0123456789abcdef''" by simp
  then have "hex_digit n \<in> set ''0123456789abcdef''"
    unfolding hex_digit_def by (rule nth_mem)
  moreover have "\<forall>c \<in> set ''0123456789abcdef''. (of_char c :: nat) < 128" by simp
  ultimately show ?thesis by blast
qed

lemma is_ascii_hexdigest: "is_ascii (hexdigest digest)"
  by (induction digest) (simp_all add: is_ascii_def hexdigest_def hex_digit_ascii)

text \<open>
  On a signature in ASCII the function returns a boolean, \<open>True\<close> exactly for the
  hexadecimal digest of the body under the UTF-8 bytes of the secret; and \<open>True\<close> is
  returned for no other signature.
\<close>

lemma verify_signature_ascii:
  "is_ascii signature \<Longrightarrow>
   verify_signature hmac_sha256 secret body signature =
     Inr (signature = hexdigest (hmac_sha256 (encode_utf8 secret) body))"
  using is_ascii_hexdigest [of "hmac_sha256 (encode_utf8 secret) body"]
  by (auto simp: verify_signature_def compare_digest_def Let_def)

lemma verify_signature_True_iff:
  "verify_signature hmac_sha256 secret body signature = Inr True \<longleftrightarrow>
     signature = hexdigest (hmac_sha256 (encode_utf8 secret) body)"
  using is_ascii_hexdigest [of "hmac_sha256 (encode_utf8 secret) body"]
  by (auto simp: verify_signature_def compare_digest_def Let_def)

text \<open>
  Claim C7 at a signature with a character outside ASCII, such as \<open>U+00E9\<close>. The claim
  and the docstring (\<open>True if signature is valid, False otherwise\<close>) have every signature
  string yield a boolean; here \<open>hmac.compare_digest\<close> raises \<open>TypeError\<close> and
  \<open>verify_signature\<close> lets it through, whatever the secret and the body are.
\<close>

theorem verify_signature_non_ascii:
  assumes "\<not> is_ascii signature"
  shows "verify_signature hmac_sha256 secret body signature = Inl TypeError"
  using assms by (simp add: verify_signature_def compare_digest_def Let_def)

theorem verify_signature_non_ascii_witness:
  "\<not> is_ascii [CHR 0xE9] \<and>
   verify_signature (\<lambda>key msg. key @ msg) ''test-secret-123'' [0x7B, 0x7D] [CHR 0xE9] =
     Inl TypeError"
proof -
  have h: "\<not> is_ascii [CHR 0xE9]" by (simp add: is_ascii_def)
  from h verify_signature_non_ascii [OF h] show ?thesis by (rule conjI)
qed

section \<open>Payload validation\<close>

lemma message_id_field_iff:
  "message_id_field v = Some s \<longleftrightarrow> v = Some (JStr s) \<and> s \<noteq> []"
  by (cases v; cases "the v") (auto simp: message_id_field_def Suc_le_eq)

lemma from_field_iff:
  "from_field v = Some s \<longleftrightarrow> v = Some (JStr s) \<and> e164_match s"
  by (cases v; cases "the v") (auto simp: from_field_def)

lemma to_field_iff:
  "to_field v = Some s \<longleftrightarrow> v = Some (JStr s) \<and> e164_match s"
  by (cases v; cases "the v") (auto simp: to_field_def)

lemma ts_field_iff:
  "ts_field v = Some s \<longleftrightarrow>
     v = Some (JStr s) \<and> iso8601_utc_match s \<and> fromisoformat_ok (replace_Z s)"
  by (cases v; cases "the v") (auto simp: ts_field_def validate_ts_iso8601_def)

lemma text_field_iff:
  "text_field v = Some x \<longleftrightarrow>
     (case x of None \<Rightarrow> v = None \<or> v = Some JNull
              | Some s \<Rightarrow> v = Some (JStr s) \<and> length s \<le> 4096)"
  by (cases v; cases "the v"; cases x) (auto simp: text_field_def)

lemma from_field_not_str:
  "from_field v = Some s \<Longrightarrow> \<not> (case v of Some w \<Rightarrow> \<not> is_str w | None \<Rightarrow> False)"
  by (auto simp: from_field_iff is_str_def)

lemma WebhookPayload_Inr_iff:
  "WebhookPayload (JDict d) = Inr p \<longleftrightarrow>
     message_id_field (map_of d ''message_id'') = Some (p_message_id p) \<and>
     from_field (lookup_from d) = Some (p_from p) \<and>
     to_field (map_of d ''to'') = Some (p_to p) \<and>
     ts_field (map_of d ''ts'') = Some (p_ts p) \<and>
     text_field (map_of d ''text'') = Some (p_text p)"
proof (cases "case lookup_from d of Some v \<Rightarrow> \<not> is_str v | None \<Rightarrow> False")
  case True
  then have "from_field (lookup_from d) \<noteq> Some (p_from p)"
    using from_field_not_str by blast
  with True show ?thesis by (simp add: WebhookPayload_def)
next
  case False
  then show ?thesis
    by (cases "message_id_field (map_of d ''message_id'')"; cases "from_field (lookup_from d)";
        cases "to_field (map_of d ''to'')"; cases "ts_field (map_of d ''ts'')";
        cases "text_field (map_of d ''text'')"; cases p)
       (auto simp: WebhookPayload_def)
qed

lemma WebhookPayload_not_dict:
  "WebhookPayload payload_data = Inr p \<Longrightarrow> \<exists>d. payload_data = JDict d"
  by (cases payload_data) (simp_all add: WebhookPayload_def)

text \<open>What the pattern for \<open>from\<close> and \<open>to\<close> accepts, written out.\<close>

lemma e164_match_iff:
  "e164_match s \<longleftrightarrow>
     (\<exists>ds. ds \<noteq> [] \<and> list_all is_digit ds \<and>
           (s = CHR ''+'' # ds \<or> s = CHR ''+'' # ds @ [CHR 0x0A]))"
proof
  assume m: "e164_match s"
  then obtain ds where s: "strip_final_newline s = CHR ''+'' # ds"
    and ds: "ds \<noteq> []" "list_all is_digit ds"
    by (auto simp: e164_match_def split: list.splits)
  show "\<exists>ds. ds \<noteq> [] \<and> list_all is_digit ds \<and>
           (s = CHR ''+'' # ds \<or> s = CHR ''+'' # ds @ [CHR 0x0A])"
  proof (cases "s \<noteq> [] \<and> last s = CHR 0x0A")
    case True
    then have "s = butlast s @ [CHR 0x0A]" by (metis append_butlast_last_id)
    moreover from True s have "butlast s = CHR ''+'' # ds" by (simp add: strip_final_newline_def)
    ultimately have "s = CHR ''+'' # ds @ [CHR 0x0A]" by simp
    with ds show ?thesis by blast
  next
    case False
    with s have "s = CHR ''+'' # ds" by (simp add: strip_final_newline_def split: if_splits)
    with ds show ?thesis by blast
  qed
next
  assume "\<exists>ds. ds \<noteq> [] \<and> list_all is_digit ds \<and>
           (s = CHR ''+'' # ds \<or> s = CHR ''+'' # ds @ [CHR 0x0A])"
  then obtain ds where ds: "ds \<noteq> []" "list_all is_digit ds"
    and s: "s = CHR ''+'' # ds \<or> s = CHR ''+'' # ds @ [CHR 0x0A]" by blast
  from ds have nl: "last ds \<noteq> CHR 0x0A"
    by (auto simp: list_all_iff is_digit_def dest!: last_in_set)
  from s show "e164_match s"
  proof
    assume "s = CHR ''+'' # ds"
    with ds nl show ?thesis by (simp add: e164_match_def strip_final_newline_def)
  next
    assume "s = CHR ''+'' # ds @ [CHR 0x0A]"
    with ds show ?thesis
      by (simp add: e164_match_def strip_final_newline_def butlast_append)
  qed
qed

lemma impossible_dates_rejected:
  "\<not> validate_ts_iso8601 ''2025-13-15T10:00:00Z'' \<and>
   \<not> validate_ts_iso8601 ''2025-02-29T10:00:00Z'' \<and>
   iso8601_utc_match ''2025-13-15T10:00:00Z'' \<and>
   validate_ts_iso8601 ''2024-02-29T10:00:00.25Z''"
  by code_simp

text \<open>
  Claim C9, as the code has it. \<open>WebhookPayload\<close> accepts a parsed body exactly when it is
  an object in which \<open>message_id\<close> is a non-empty string; the sender, read from the key
  \<open>from\<close> or, when that key is absent, from the key \<open>from_\<close>, and \<open>to\<close> are strings that
  match the pattern for numbers; \<open>ts\<close> is a string that matches the pattern for timestamps
  and parses as a calendar instant with \<open>Z\<close> read as \<open>+00:00\<close>; and \<open>text\<close> is absent,
  \<open>null\<close>, or a string of at most 4096 characters. The accepted payload carries these
  values. The result depends on the values under these six keys only, so any other key is
  ignored.
\<close>

theorem WebhookPayload_accepts:
  "(WebhookPayload payload_data = Inr p \<longleftrightarrow>
      (\<exists>d. payload_data = JDict d \<and>
           map_of d ''message_id'' = Some (JStr (p_message_id p)) \<and> p_message_id p \<noteq> [] \<and>
           lookup_from d = Some (JStr (p_from p)) \<and> e164_match (p_from p) \<and>
           map_of d ''to'' = Some (JStr (p_to p)) \<and> e164_match (p_to p) \<and>
           map_of d ''ts'' = Some (JStr (p_ts p)) \<and> iso8601_utc_match (p_ts p) \<and>
           fromisoformat_ok (replace_Z (p_ts p)) \<and>
           (case p_text p of
              None \<Rightarrow> map_of d ''text'' = None \<or> map_of d ''text'' = Some JNull
            | Some x \<Rightarrow> map_of d ''text'' = Some (JStr x) \<and> length x \<le> 4096))) \<and>
   ((\<forall>k \<in> {''message_id'', ''from'', ''from_'', ''to'', ''ts'', ''text''}. map_of d1 k = map_of d2 k)
      \<longrightarrow> WebhookPayload (JDict d1) = WebhookPayload (JDict d2))"
proof
  show "WebhookPayload payload_data = Inr p \<longleftrightarrow>
      (\<exists>d. payload_data = JDict d \<and>
           map_of d ''message_id'' = Some (JStr (p_message_id p)) \<and> p_message_id p \<noteq> [] \<and>
           lookup_from d = Some (JStr (p_from p)) \<and> e164_match (p_from p) \<and>
           map_of d ''to'' = Some (JStr (p_to p)) \<and> e164_match (p_to p) \<and>
           map_of d ''ts'' = Some (JStr (p_ts p)) \<and> iso8601_utc_match (p_ts p) \<and>
           fromisoformat_ok (replace_Z (p_ts p)) \<and>
           (case p_text p of
              None \<Rightarrow> map_of d ''text'' = None \<or> map_of d ''text'' = Some JNull
            | Some x \<Rightarrow> map_of d ''text'' = Some (JStr x) \<and> length x \<le> 4096))"
  proof (cases "\<exists>d. payload_data = JDict d")
    case True
    then obtain d where d: "payload_data = JDict d" by blast
    show ?thesis unfolding d
      by (simp add: WebhookPayload_Inr_iff message_id_field_iff from_field_iff to_field_iff
            ts_field_iff text_field_iff)
  next
    case False
    with WebhookPayload_not_dict [of payload_data p] show ?thesis by blast
  qed
next
  show "(\<forall>k \<in> {''message_id'', ''from'', ''from_'', ''to'', ''ts'', ''text''}. map_of d1 k = map_of d2 k)
      \<longrightarrow> WebhookPayload (JDict d1) = WebhookPayload (JDict d2)"
  proof
    assume "\<forall>k \<in> {''message_id'', ''from'', ''from_'', ''to'', ''ts'', ''text''}. map_of d1 k = map_of d2 k"
    then have "map_of d1 ''message_id'' = map_of d2 ''message_id''"
      and "map_of d1 ''from'' = map_of d2 ''from''"
      and "map_of d1 ''from_'' = map_of d2 ''from_''"
      and "map_of d1 ''to'' = map_of d2 ''to''"
      and "map_of d1 ''ts'' = map_of d2 ''ts''"
      and "map_of d1 ''text'' = map_of d2 ''text''"
      by blast+
    moreover from this have "lookup_from d1 = lookup_from d2"
      by (simp only: lookup_from_def)
    ultimately show "WebhookPayload (JDict d1) = WebhookPayload (JDict d2)"
      by (simp only: WebhookPayload_def json.case)
  qed
qed

theorem WebhookPayload_accepts_counterexample:
  "WebhookPayload
     (JDict [(''message_id'', JStr ''m1''), (''from_'', JStr ''+919876543210''),
             (''to'', JStr ''+14155550100''), (''ts'', JStr ''2025-01-15T10:00:00Z'')])
   = Inr \<lparr>p_message_id = ''m1'', p_from = ''+919876543210'', p_to = ''+14155550100'',
          p_ts = ''2025-01-15T10:00:00Z'', p_text = None\<rparr> \<and>
   map_of [(''message_id'', JStr ''m1''), (''from_'', JStr ''+919876543210''),
           (''to'', JStr ''+14155550100''), (''ts'', JStr ''2025-01-15T10:00:00Z'')] ''from'' = None"
  by code_simp

theorem WebhookPayload_accepts_witness:
  "WebhookPayload
     (JDict [(''message_id'', JStr ''m1''), (''from'', JStr ''+919876543210''),
             (''to'', JStr ''+14155550100''), (''ts'', JStr ''2025-01-15T10:00:00Z''),
             (''text'', JStr ''Hello'')])
   = Inr \<lparr>p_message_id = ''m1'', p_from = ''+919876543210'', p_to = ''+14155550100'',
          p_ts = ''2025-01-15T10:00:00Z'', p_text = Some ''Hello''\<rparr> \<and>
   WebhookPayload
     (JDict [(''message_id'', JStr ''m1''), (''from'', JStr ''+919876543210''),
             (''to'', JStr ''+14155550100''), (''ts'', JStr ''2025-01-15T10:00:00Z''),
             (''text'', JStr ''Hello''), (''channel'', JInt 7)])
   = Inr \<lparr>p_message_id = ''m1'', p_from = ''+919876543210'', p_to = ''+14155550100'',
          p_ts = ''2025-01-15T10:00:00Z'', p_text = Some ''Hello''\<rparr>"
proof -
  let ?d = "[(''message_id'', JStr ''m1''), (''from'', JStr ''+919876543210''),
             (''to'', JStr ''+14155550100''), (''ts'', JStr ''2025-01-15T10:00:00Z''),
             (''text'', JStr ''Hello'')]"
  let ?p = "\<lparr>p_message_id = ''m1'', p_from = ''+919876543210'', p_to = ''+14155550100'',
          p_ts = ''2025-01-15T10:00:00Z'', p_text = Some ''Hello''\<rparr>"
  have pat: "e164_match ''+919876543210'' \<and> e164_match ''+14155550100'' \<and>
             iso8601_utc_match ''2025-01-15T10:00:00Z'' \<and>
             fromisoformat_ok (replace_Z ''2025-01-15T10:00:00Z'')"
    by code_simp
  have "\<exists>d. JDict ?d = JDict d \<and>
           map_of d ''message_id'' = Some (JStr (p_message_id ?p)) \<and> p_message_id ?p \<noteq> [] \<and>
           lookup_from d = Some (JStr (p_from ?p)) \<and> e164_match (p_from ?p) \<and>
           map_of d ''to'' = Some (JStr (p_to ?p)) \<and> e164_match (p_to ?p) \<and>
           map_of d ''ts'' = Some (JStr (p_ts ?p)) \<and> iso8601_utc_match (p_ts ?p) \<and>
           fromisoformat_ok (replace_Z (p_ts ?p)) \<and>
           (case p_text ?p of
              None \<Rightarrow> map_of d ''text'' = None \<or> map_of d ''text'' = Some JNull
            | Some x \<Rightarrow> map_of d ''text'' = Some (JStr x) \<and> length x \<le> 4096)"
    using pat by (intro exI [of _ ?d]) (simp add: lookup_from_def)
  with WebhookPayload_accepts [of "JDict ?d" ?p, THEN conjunct1]
  have a: "WebhookPayload (JDict ?d) = Inr ?p" by (rule iffD2)
  have "\<forall>k \<in> {''message_id'', ''from'', ''from_'', ''to'', ''ts'', ''text''}.
          map_of (?d @ [(''channel'', JInt 7)]) k = map_of ?d k"
    by simp
  with WebhookPayload_accepts [of _ _ "?d @ [(''channel'', JInt 7)]" ?d, THEN conjunct2]
  have "WebhookPayload (JDict (?d @ [(''channel'', JInt 7)])) = WebhookPayload (JDict ?d)"
    by (rule mp)
  with a have b: "WebhookPayload (JDict (?d @ [(''channel'', JInt 7)])) = Inr ?p" by simp
  from a b show ?thesis by simp
qed

section \<open>The ingestion path\<close>

lemma insert_message_raises:
  "insert_message fault now tbl mid frm to tstamp txt = (Inl e, tbl') \<Longrightarrow> tbl' = tbl"
  by (cases fault) (auto simp: insert_message_def split: if_splits)

lemma webhook_invalid_signature:
  assumes "\<not> truthy x_signature \<or>
           verify_signature hmac_sha256 secret body (str_of x_signature) = Inr False"
  shows "webhook hmac_sha256 json_loads secret fault now tbl x_signature body =
           \<lparr>w_status = 401, w_body = Detail ''invalid signature'',
            w_result = Some ''invalid_signature'', w_table = tbl\<rparr>"
  using assms by (auto simp: webhook_def)

lemma webhook_validation_error:
  assumes "truthy x_signature"
    and "verify_signature hmac_sha256 secret body (str_of x_signature) = Inr True"
    and "json_loads body = None \<or>
         (\<exists>payload_data e. json_loads body = Some payload_data \<and>
                            WebhookPayload payload_data = Inl e)"
  shows "webhook hmac_sha256 json_loads secret fault now tbl x_signature body =
           \<lparr>w_status = 422, w_body = ExceptionText,
            w_result = Some ''validation_error'', w_table = tbl\<rparr>"
  using assms by (auto simp: webhook_def)

lemma webhook_fails_closed:
  assumes "w_status (webhook hmac_sha256 json_loads secret fault now tbl x_signature body) \<noteq> 200"
  shows "w_table (webhook hmac_sha256 json_loads secret fault now tbl x_signature body) = tbl"
  using assms
  by (auto simp: webhook_def split: if_splits sum.splits bool.splits option.splits prod.splits
           dest: insert_message_raises)

text \<open>
  Claim C8 at a signature with a character outside ASCII, such as the header value
  \<open>U+00E9\<close>. \<open>hmac.compare_digest\<close> raises \<open>TypeError\<close>, which \<open>verify_signature\<close> and the
  handler let through: the answer is the 500 of the generic exception handler, not the 401
  with \<open>invalid signature\<close>, and no outcome is recorded. The table is left as it was.
\<close>

theorem webhook_non_ascii_signature:
  assumes "\<not> is_ascii signature"
  shows "webhook hmac_sha256 json_loads secret fault now tbl (Some signature) body =
           \<lparr>w_status = 500, w_body = Detail ''Internal server error'',
            w_result = None, w_table = tbl\<rparr>"
proof -
  from assms have "signature \<noteq> []" by (auto simp: is_ascii_def)
  then have t: "truthy (Some signature)" by (simp add: truthy_def)
  from assms have "verify_signature hmac_sha256 secret body signature = Inl TypeError"
    by (simp add: verify_signature_def compare_digest_def Let_def)
  with t show ?thesis by (simp add: webhook_def str_of_def)
qed

theorem webhook_non_ascii_signature_witness:
  "\<not> is_ascii [CHR 0xE9] \<and>
   webhook (\<lambda>key msg. [0xAB]) (\<lambda>b. None) ''test-secret-123'' NoFault ''now'' [] (Some [CHR 0xE9]) [] =
     \<lparr>w_status = 500, w_body = Detail ''Internal server error'', w_result = None, w_table = []\<rparr>"
proof -
  have h: "\<not> is_ascii [CHR 0xE9]" by (simp add: is_ascii_def)
  from h webhook_non_ascii_signature [OF h] show ?thesis by (rule conjI)
qed

text \<open>
  Claim C2 at a storage fault inside \<open>insert_message\<close>. For a request whose signature
  verifies and whose payload validates, a fault of the statement makes \<open>insert_message\<close>
  return \<open>(False, False)\<close>; the handler reads \<open>is_duplicate\<close> only, so it records the
  outcome \<open>created\<close> and answers 200 with \<open>{"status": "ok"}\<close>, while no row is stored. Only a
  fault while connecting, raised before the \<open>try\<close>, ends in a 500.
\<close>

theorem webhook_statement_fault:
  assumes "truthy x_signature"
    and "verify_signature hmac_sha256 secret body (str_of x_signature) = Inr True"
    and "json_loads body = Some payload_data"
    and "WebhookPayload payload_data = Inr payload"
  shows "webhook hmac_sha256 json_loads secret StatementFault now tbl x_signature body =
           \<lparr>w_status = 200, w_body = StatusOk, w_result = Some ''created'', w_table = tbl\<rparr> \<and>
         webhook hmac_sha256 json_loads secret ConnectFault now tbl x_signature body =
           \<lparr>w_status = 500, w_body = Detail ''Internal server error'', w_result = None,
            w_table = tbl\<rparr>"
  using assms by (simp add: webhook_def insert_message_def)

theorem webhook_statement_fault_witness:
  "webhook (\<lambda>key msg. [0xAB]) 
     (\<lambda>b. Some (JDict [(''message_id'', JStr ''m1''), (''from'', JStr ''+919876543210''),
                        (''to'', JStr ''+14155550100''), (''ts'', JStr ''2025-01-15T10:00:00Z''),
                        (''text'', JStr ''Hello'')]))
     ''test-secret-123'' StatementFault ''now'' [] (Some ''ab'') [] =
     \<lparr>w_status = 200, w_body = StatusOk, w_result = Some ''created'', w_table = []\<rparr>"
proof -
  let ?j = "JDict [(''message_id'', JStr ''m1''), (''from'', JStr ''+919876543210''),
                        (''to'', JStr ''+14155550100''), (''ts'', JStr ''2025-01-15T10:00:00Z''),
                        (''text'', JStr ''Hello'')]"
  let ?p = "\<lparr>p_message_id = ''m1'', p_from = ''+919876543210'', p_to = ''+14155550100'',
             p_ts = ''2025-01-15T10:00:00Z'', p_text = Some ''Hello''\<rparr>"
  have a: "truthy (Some ''ab'')" by (simp add: truthy_def)
  have b: "verify_signature (\<lambda>key msg. [0xAB]) ''test-secret-123'' [] (str_of (Some ''ab'')) = Inr True"
    by code_simp
  have c: "(\<lambda>b. Some ?j) ([] :: bytes) = Some ?j" by simp
  have d: "WebhookPayload ?j = Inr ?p" by code_simp
  from webhook_statement_fault [OF a b c d, THEN conjunct1] show ?thesis .
qed

end
